theory Spec2Isabelle
  imports Main "HOL-Library.Sublist" "HOL-Library.Multiset" "HOL-Library.AList"
begin

section \<open>JavaScript values produced by the XML parser\<close>

text \<open>
  The loader and the normaliser work on the object tree that fast-xml-parser returns.
  A value of that tree is a string (text content, or the empty string for an empty
  element), an array (a tag that occurs several times, or one of the tags forced to
  arrays by \<open>isArrayTag\<close>), or an object. An object has attributes, stored under keys
  that start with \<open>@_\<close> and always strings (\<open>parseAttributeValue: false\<close>), and child
  entries, stored under element names (and \<open>#text\<close>). Element names cannot start with
  \<open>@\<close>, so the two key spaces are disjoint and are kept as two association lists.
  An array is a JavaScript object too: \<open>ensureSchema\<close> may store a property on one, so
  an array carries a property list, empty as it leaves the parser.

  Not represented: text content that the parser converts to a number or a boolean, and
  attributes without a value (\<open>allowBooleanAttributes\<close>). \<open>undefined\<close> is the \<open>None\<close> of
  an option type; the parser produces no \<open>null\<close>.
\<close>

datatype jv =
    JStr string
  | JArr "jv list" "(string \<times> jv) list"
  | JObj "(string \<times> string) list" "(string \<times> jv) list"

datatype error =
    Error string        \<comment> \<open>\<open>throw new Error(message)\<close> in the repository's code\<close>
  | TypeError string    \<comment> \<open>thrown by the runtime, e.g. a property stored on a string\<close>
  | ReadFileError string  \<comment> \<open>\<open>readFile\<close> rejected, with the message of Node's error\<close>
  | FetchRejected string  \<comment> \<open>\<open>fetch\<close> rejected, with the message of the runtime's error\<close>
  | XmlParserError string \<comment> \<open>\<open>XMLParser.parse\<close> threw, with the parser's message\<close>

fun message_of :: "error \<Rightarrow> string" where
  "message_of (Error msg) = msg"
| "message_of (TypeError msg) = msg"
| "message_of (ReadFileError msg) = msg"
| "message_of (FetchRejected msg) = msg"
| "message_of (XmlParserError msg) = msg"

text \<open>\<open>v[key]\<close> for an element-name key, and for an attribute key.\<close>

fun get_prop :: "jv \<Rightarrow> string \<Rightarrow> jv option" where
  "get_prop (JStr s) key = None"
| "get_prop (JArr xs ps) key = map_of ps key"
| "get_prop (JObj as cs) key = map_of cs key"

fun get_attr :: "jv \<Rightarrow> string \<Rightarrow> string option" where
  "get_attr (JObj as cs) key = map_of as key"
| "get_attr v key = None"

text \<open>
  \<open>v[key] = x\<close>. The modules are ES modules, hence strict code: storing a property on a
  string throws a TypeError. \<open>upd_prop\<close> is the store on an object or array.
\<close>

fun upd_prop :: "jv \<Rightarrow> string \<Rightarrow> jv \<Rightarrow> jv" where
  "upd_prop (JStr s) key x = JStr s"
| "upd_prop (JArr xs ps) key x = JArr xs (AList.update key x ps)"
| "upd_prop (JObj as cs) key x = JObj as (AList.update key x cs)"

fun set_prop :: "jv \<Rightarrow> string \<Rightarrow> jv \<Rightarrow> error + jv" where
  "set_prop (JStr s) key x =
     Inl (TypeError (''Cannot create property '' @ [CHR 0x27] @ key @ [CHR 0x27]
                     @ '' on string '' @ [CHR 0x27] @ s @ [CHR 0x27]))"
| "set_prop v key x = Inr (upd_prop v key x)"

text \<open>Truthiness, as tested by \<open>!v\<close>: \<open>undefined\<close> and the empty string are falsy.\<close>

fun truthy :: "jv option \<Rightarrow> bool" where
  "truthy None = False"
| "truthy (Some (JStr s)) = (s \<noteq> [])"
| "truthy (Some v) = True"

text \<open>\<open>xs[0]\<close> on an array.\<close>

fun first :: "'a list \<Rightarrow> 'a option" where
  "first [] = None"
| "first (x # xs) = Some x"

subsection \<open>util.js\<close>

fun arr :: "jv option \<Rightarrow> jv list" where
  "arr None = []"
| "arr (Some (JArr xs ps)) = xs"
| "arr (Some v) = [v]"

definition stripNs :: "string \<Rightarrow> string" where
  "stripNs value =
     (if CHR '':'' \<in> set value then tl (dropWhile (\<lambda>c. c \<noteq> CHR '':'') value) else value)"

text \<open>\<open>String.prototype.trim\<close>, on the ASCII white space characters.\<close>

definition is_space :: "char \<Rightarrow> bool" where
  "is_space c = (c \<in> set [CHR 0x20, CHR 0x09, CHR 0x0A, CHR 0x0B, CHR 0x0C, CHR 0x0D])"

definition trim :: "string \<Rightarrow> string" where
  "trim s = rev (dropWhile is_space (rev (dropWhile is_space s)))"

text \<open>\<open>String(v)\<close>: an array joins its elements with commas.\<close>

fun join_commas :: "string list \<Rightarrow> string" where
  "join_commas [] = []"
| "join_commas [s] = s"
| "join_commas (s # t # ss) = s @ '','' @ join_commas (t # ss)"

fun js_String :: "jv \<Rightarrow> string" where
  "js_String (JStr s) = s"
| "js_String (JArr xs ps) = join_commas (map js_String xs)"
| "js_String (JObj as cs) = ''[object Object]''"

fun text_of :: "jv \<Rightarrow> string" where
  "text_of (JStr s) = trim s"
| "text_of (JArr [] ps) = []"
| "text_of (JArr (x # xs) ps) = text_of x"
| "text_of (JObj as cs) =
     trim (js_String (case map_of cs ''#text'' of None \<Rightarrow> JStr [] | Some t \<Rightarrow> t))"

definition text_opt :: "jv option \<Rightarrow> string" where
  "text_opt node = (case node of None \<Rightarrow> [] | Some v \<Rightarrow> text_of v)"

section \<open>The normalised model (model.js)\<close>

record field =
  field_name :: string
  field_type :: string
  field_minOccurs :: string
  field_maxOccurs :: string
  field_documentation :: string

record typeObject =
  type_name :: string
  type_kind :: string
  type_documentation :: string
  type_fields :: "field list"
  type_enumerations :: "string list"

record part =
  part_name :: string
  part_element :: string
  part_type :: string

record messageObject =
  message_name :: string
  message_parts :: "part list"

record fault =
  fault_name :: string
  fault_message :: string

record operation =
  operation_name :: string
  operation_documentation :: string
  operation_input :: string
  operation_output :: string
  operation_faults :: "fault list"

record boundOperation =
  bound_name :: string
  soapAction :: string

record binding =
  binding_name :: string
  binding_type :: string
  style :: string
  transport :: string
  protocol :: string
  binding_operations :: "boundOperation list"

record endpoint =
  endpoint_service :: string
  endpoint_port :: string
  endpoint_binding :: string
  url :: string

record model =
  model_name :: string
  targetNamespace :: string
  model_documentation :: string
  types :: "typeObject list"
  messages :: "messageObject list"
  operations :: "operation list"
  bindings :: "binding list"
  endpoints :: "endpoint list"

text \<open>\<open>node[key] ?? dflt\<close> for an attribute.\<close>

definition attr_or :: "jv \<Rightarrow> string \<Rightarrow> string \<Rightarrow> string" where
  "attr_or node key dflt = (case get_attr node key of None \<Rightarrow> dflt | Some s \<Rightarrow> s)"

definition getDoc :: "jv \<Rightarrow> string" where
  "getDoc node =
     (if \<not> truthy (Some node) then []
      else let direct = text_opt (first (arr (get_prop node ''documentation'')))
           in if direct \<noteq> [] then direct
              else let annotation = first (arr (get_prop node ''annotation''))
                   in text_opt (first (arr (case annotation of None \<Rightarrow> None
                                             | Some a \<Rightarrow> get_prop a ''documentation''))))"

text \<open>The first compositor that is not \<open>undefined\<close>, else an empty object.\<close>

definition compositor_of :: "jv \<Rightarrow> jv" where
  "compositor_of complexTypeNode =
     (case first (arr (get_prop complexTypeNode ''sequence'')) of
        Some c \<Rightarrow> c
      | None \<Rightarrow>
         (case first (arr (get_prop complexTypeNode ''all'')) of
            Some c \<Rightarrow> c
          | None \<Rightarrow>
             (case first (arr (get_prop complexTypeNode ''choice'')) of
                Some c \<Rightarrow> c
              | None \<Rightarrow> JObj [] [])))"

definition extractFields :: "jv \<Rightarrow> field list" where
  "extractFields complexTypeNode =
     map (\<lambda>el. \<lparr> field_name = attr_or el ''@_name'' [],
                 field_type = stripNs (case get_attr el ''@_type'' of
                                         Some t \<Rightarrow> t
                                       | None \<Rightarrow> attr_or el ''@_element'' []),
                 field_minOccurs = attr_or el ''@_minOccurs'' ''1'',
                 field_maxOccurs = attr_or el ''@_maxOccurs'' ''1'',
                 field_documentation = getDoc el \<rparr>)
         (arr (get_prop (compositor_of complexTypeNode) ''element''))"

definition extractEnumerations :: "jv \<Rightarrow> string list" where
  "extractEnumerations simpleTypeNode =
     (let restriction = get_prop simpleTypeNode ''restriction''
      in if \<not> truthy restriction then []
         else map (\<lambda>e. attr_or e ''@_value'' [])
                  (arr (case restriction of None \<Rightarrow> None
                        | Some r \<Rightarrow> get_prop r ''enumeration'')))"

text \<open>
  The three loops of \<open>extractTypes\<close>. The first skips a top-level element with no inline
  complex type (\<open>if (!ct) continue\<close>).
\<close>

definition element_types :: "jv list \<Rightarrow> typeObject list" where
  "element_types els =
     concat (map (\<lambda>el. let ct = first (arr (get_prop el ''complexType''))
                        in if \<not> truthy ct then []
                           else (case ct of None \<Rightarrow> []
                                 | Some c \<Rightarrow>
                                    [\<lparr> type_name = attr_or el ''@_name'' [],
                                       type_kind = ''element'',
                                       type_documentation = getDoc el,
                                       type_fields = extractFields c,
                                       type_enumerations = [] \<rparr>])) els)"

definition complex_types :: "jv list \<Rightarrow> typeObject list" where
  "complex_types cts =
     map (\<lambda>ct. \<lparr> type_name = attr_or ct ''@_name'' [],
                 type_kind = ''complexType'',
                 type_documentation = getDoc ct,
                 type_fields = extractFields ct,
                 type_enumerations = [] \<rparr>) cts"

definition simple_types :: "jv list \<Rightarrow> typeObject list" where
  "simple_types sts =
     map (\<lambda>st. \<lparr> type_name = attr_or st ''@_name'' [],
                 type_kind = ''simpleType'',
                 type_documentation = getDoc st,
                 type_fields = [],
                 type_enumerations = extractEnumerations st \<rparr>) sts"

definition extractTypes :: "jv \<Rightarrow> typeObject list" where
  "extractTypes schema =
     element_types (arr (get_prop schema ''element''))
     @ complex_types (arr (get_prop schema ''complexType''))
     @ simple_types (arr (get_prop schema ''simpleType''))"

definition extractMessages :: "jv list \<Rightarrow> messageObject list" where
  "extractMessages msgs =
     map (\<lambda>msg. \<lparr> message_name = attr_or msg ''@_name'' [],
                  message_parts =
                    map (\<lambda>p. \<lparr> part_name = attr_or p ''@_name'' [],
                               part_element = stripNs (attr_or p ''@_element'' []),
                               part_type = stripNs (attr_or p ''@_type'' []) \<rparr>)
                        (arr (get_prop msg ''part'')) \<rparr>) msgs"

text \<open>\<open>arr(op[key])[0]?.['@_message'] ?? ''\<close>.\<close>

definition first_message :: "jv \<Rightarrow> string \<Rightarrow> string" where
  "first_message op key =
     (case first (arr (get_prop op key)) of
        None \<Rightarrow> []
      | Some n \<Rightarrow> attr_or n ''@_message'' [])"

definition extractOperations :: "jv list \<Rightarrow> operation list" where
  "extractOperations portTypes =
     concat (map (\<lambda>pt.
       map (\<lambda>op. \<lparr> operation_name = attr_or op ''@_name'' [],
                   operation_documentation = getDoc op,
                   operation_input = stripNs (first_message op ''input''),
                   operation_output = stripNs (first_message op ''output''),
                   operation_faults =
                     map (\<lambda>f. \<lparr> fault_name = attr_or f ''@_name'' [],
                                fault_message = stripNs (attr_or f ''@_message'' []) \<rparr>)
                         (arr (get_prop op ''fault'')) \<rparr>)
           (arr (get_prop pt ''operation''))) portTypes)"

definition detectProtocol :: "string \<Rightarrow> string" where
  "detectProtocol t = (if sublist ''soap12'' t then ''SOAP 1.2'' else ''SOAP 1.1'')"

text \<open>
  After prefix stripping the \<open>soap:binding\<close> child has the same key as the outer
  \<open>wsdl:binding\<close>; it is read as \<open>b.binding[0]\<close>.
\<close>

definition extractBinding :: "jv \<Rightarrow> binding" where
  "extractBinding b =
     (let soapBinding = (case first (arr (get_prop b ''binding'')) of
                           None \<Rightarrow> JObj [] [] | Some s \<Rightarrow> s)
      in \<lparr> binding_name = attr_or b ''@_name'' [],
           binding_type = stripNs (attr_or b ''@_type'' []),
           style = attr_or soapBinding ''@_style'' ''document'',
           transport = attr_or soapBinding ''@_transport'' [],
           protocol = detectProtocol (attr_or soapBinding ''@_transport'' []),
           binding_operations =
             map (\<lambda>op. let soapOp = (case first (arr (get_prop op ''operation'')) of
                                       None \<Rightarrow> JObj [] [] | Some s \<Rightarrow> s)
                        in \<lparr> bound_name = attr_or op ''@_name'' [],
                             soapAction = attr_or soapOp ''@_soapAction'' [] \<rparr>)
                 (arr (get_prop b ''operation'')) \<rparr>)"

definition extractBindings :: "jv list \<Rightarrow> binding list" where
  "extractBindings bs = map extractBinding bs"

definition extractEndpoints :: "jv list \<Rightarrow> endpoint list" where
  "extractEndpoints services =
     concat (map (\<lambda>svc.
       map (\<lambda>port.
              let address = get_prop port ''address'';
                  a = (case address of Some (JArr xs ps) \<Rightarrow> first xs | other \<Rightarrow> other)
              in \<lparr> endpoint_service = attr_or svc ''@_name'' [],
                   endpoint_port = attr_or port ''@_name'' [],
                   endpoint_binding = stripNs (attr_or port ''@_binding'' []),
                   url = (case a of None \<Rightarrow> [] | Some n \<Rightarrow> attr_or n ''@_location'' []) \<rparr>)
           (arr (get_prop svc ''port''))) services)"

text \<open>
  \<open>buildModel(raw)\<close>. \<open>raw['definitions']\<close> is an object for every tree that \<open>parseWsdl\<close>
  returns; reading a property of \<open>undefined\<close> throws.
\<close>

definition schema_of :: "jv \<Rightarrow> jv" where
  "schema_of defs =
     (case get_prop defs ''types'' of
        None \<Rightarrow> JObj [] []
      | Some t \<Rightarrow> (case get_prop t ''schema'' of None \<Rightarrow> JObj [] [] | Some s \<Rightarrow> s))"

definition buildModel :: "jv \<Rightarrow> error + model" where
  "buildModel raw =
     (case get_prop raw ''definitions'' of
        None \<Rightarrow> Inl (TypeError ''Cannot read properties of undefined'')
      | Some defs \<Rightarrow>
          Inr \<lparr> model_name = attr_or defs ''@_name'' [],
                targetNamespace = attr_or defs ''@_targetNamespace'' [],
                model_documentation = getDoc defs,
                types = extractTypes (schema_of defs),
                messages = extractMessages (arr (get_prop defs ''message'')),
                operations = extractOperations (arr (get_prop defs ''portType'')),
                bindings = extractBindings (arr (get_prop defs ''binding'')),
                endpoints = extractEndpoints (arr (get_prop defs ''service'')) \<rparr>)"

section \<open>The reference index (resolve.js)\<close>

text \<open>\<open>new Map(pairs)\<close> stores the pairs in order; a later pair replaces an earlier one.\<close>

definition js_Map :: "('k \<times> 'v) list \<Rightarrow> ('k \<rightharpoonup> 'v)" where
  "js_Map pairs = foldl (\<lambda>m (k, v). m(k \<mapsto> v)) Map.empty pairs"

record index =
  typeByName :: "string \<rightharpoonup> typeObject"
  messageByName :: "string \<rightharpoonup> messageObject"

definition buildIndex :: "model \<Rightarrow> index" where
  "buildIndex m =
     \<lparr> typeByName = js_Map (map (\<lambda>t. (type_name t, t)) (types m)),
       messageByName = js_Map (map (\<lambda>m. (message_name m, m)) (messages m)) \<rparr>"

record descriptor =
  partName :: string
  typeName :: string
  desc_fields :: "field list"
  desc_enumerations :: "string list"

text \<open>\<open>part.element || part.type\<close>: the element reference unless it is empty.\<close>

definition refName_of :: "part \<Rightarrow> string" where
  "refName_of p = (if part_element p \<noteq> [] then part_element p else part_type p)"

definition resolveMessageFields :: "string \<Rightarrow> index \<Rightarrow> descriptor list" where
  "resolveMessageFields messageName idx =
     (case messageByName idx messageName of
        None \<Rightarrow> []
      | Some message \<Rightarrow>
          map (\<lambda>p. let refName = refName_of p;
                       ty = typeByName idx refName
                   in \<lparr> partName = part_name p,
                        typeName = refName,
                        desc_fields = (case ty of None \<Rightarrow> [] | Some t \<Rightarrow> type_fields t),
                        desc_enumerations = (case ty of None \<Rightarrow> [] | Some t \<Rightarrow> type_enumerations t) \<rparr>)
              (message_parts message))"

section \<open>The import resolver (load.js)\<close>

subsection \<open>The outside world\<close>

text \<open>
  The loader reads files, fetches URLs, calls the XML parser and uses Node's path and URL
  functions. None of these is code of the repository: they are the fields of an
  environment that every function of the loader takes. \<open>readFile\<close> and \<open>http_fetch\<close>
  return \<open>None\<close> where the promise is rejected, \<open>xml_parse\<close> where the parser throws.
  The error is then the runtime's or the parser's own, and its message is theirs to
  choose: \<open>readFile_error\<close>, \<open>fetch_error\<close> and \<open>xml_error\<close> give it.
  The two parser configurations differ in the tags forced to arrays.
\<close>

datatype parser_cfg = WsdlCfg | XsdCfg

record http_response =
  ok :: bool
  status :: nat
  body :: string

record env =
  readFile :: "string \<Rightarrow> string option"
  readFile_error :: "string \<Rightarrow> string"
  http_fetch :: "string \<Rightarrow> http_response option"
  fetch_error :: "string \<Rightarrow> string"
  xml_parse :: "parser_cfg \<Rightarrow> string \<Rightarrow> jv option"
  xml_error :: "parser_cfg \<Rightarrow> string \<Rightarrow> string"
  path_resolve :: "string \<Rightarrow> string \<Rightarrow> string"
  path_dirname :: "string \<Rightarrow> string"
  url_dirname :: "string \<Rightarrow> string"

text \<open>A number in a template literal.\<close>

fun show_nat :: "nat \<Rightarrow> string" where
  "show_nat n =
     (if n < 10 then [''0123456789'' ! n]
      else show_nat (n div 10) @ [''0123456789'' ! (n mod 10)])"

declare show_nat.simps [simp del]

subsection \<open>parse.js\<close>

definition parseWsdl :: "env \<Rightarrow> string \<Rightarrow> error + jv" where
  "parseWsdl env xml =
     (case xml_parse env WsdlCfg xml of
        None \<Rightarrow> Inl (XmlParserError (xml_error env WsdlCfg xml))
      | Some result \<Rightarrow>
         (case result of
            JStr s \<Rightarrow> Inl (Error ''Failed to parse WSDL: unexpected parser output.'')
          | _ \<Rightarrow>
             if \<not> truthy (get_prop result ''definitions'')
             then Inl (Error ''Not a valid WSDL document: missing <definitions> root element.'')
             else Inr result))"

subsection \<open>Locations and fetching\<close>

definition XSD_TYPE_KEYS :: "string list" where
  "XSD_TYPE_KEYS = [''element'', ''complexType'', ''simpleType'', ''group'', ''attributeGroup'']"

definition WSDL_DEF_KEYS :: "string list" where
  "WSDL_DEF_KEYS = [''message'', ''portType'', ''binding'', ''service'']"

definition isUrl :: "string \<Rightarrow> bool" where
  "isUrl loc = (prefix ''http://'' loc \<or> prefix ''https://'' loc)"

definition absoluteLocation :: "env \<Rightarrow> string \<Rightarrow> string \<Rightarrow> string" where
  "absoluteLocation env loc baseDir = (if isUrl loc then loc else path_resolve env baseDir loc)"

definition baseDirOf :: "env \<Rightarrow> string \<Rightarrow> string" where
  "baseDirOf env absLoc = (if isUrl absLoc then url_dirname env absLoc else path_dirname env absLoc)"

definition fetchSource :: "env \<Rightarrow> string \<Rightarrow> error + string" where
  "fetchSource env absLoc =
     (if isUrl absLoc then
        (case http_fetch env absLoc of
           None \<Rightarrow> Inl (FetchRejected (fetch_error env absLoc))
         | Some res \<Rightarrow>
            if \<not> ok res
            then Inl (Error (''Failed to fetch '' @ absLoc @ '': HTTP '' @ show_nat (status res)))
            else Inr (body res))
      else (case readFile env absLoc of
              None \<Rightarrow> Inl (ReadFileError (readFile_error env absLoc))
            | Some t \<Rightarrow> Inr t))"

definition parseXsd :: "env \<Rightarrow> string \<Rightarrow> error + jv" where
  "parseXsd env xml =
     (case xml_parse env XsdCfg xml of
        None \<Rightarrow> Inl (XmlParserError (xml_error env XsdCfg xml))
      | Some result \<Rightarrow>
         Inr (case get_prop result ''schema'' of
                Some s \<Rightarrow> s
              | None \<Rightarrow>
                 (case get_prop result ''definitions'' of
                    None \<Rightarrow> JObj [] []
                  | Some d \<Rightarrow>
                     (case get_prop d ''types'' of
                        None \<Rightarrow> JObj [] []
                      | Some t \<Rightarrow>
                         (case get_prop t ''schema'' of
                            None \<Rightarrow> JObj [] []
                          | Some s \<Rightarrow> s)))))"

subsection \<open>Merging\<close>

text \<open>
  \<open>ensureSchema(defs)\<close> stores an empty object where \<open>types\<close> or \<open>schema\<close> is falsy and
  returns \<open>defs.types.schema\<close>. The model returns the definitions node as it is after
  the stores, together with the schema node.
\<close>

definition ensureSchema :: "jv \<Rightarrow> error + (jv \<times> jv)" where
  "ensureSchema defs =
     (case (if \<not> truthy (get_prop defs ''types'')
            then set_prop defs ''types'' (JObj [] []) else Inr defs) of
        Inl e \<Rightarrow> Inl e
      | Inr defs1 \<Rightarrow>
         (case get_prop defs1 ''types'' of
            None \<Rightarrow> Inl (TypeError ''Cannot read properties of undefined'')
          | Some tys \<Rightarrow>
             (case (if \<not> truthy (get_prop tys ''schema'')
                    then set_prop tys ''schema'' (JObj [] []) else Inr tys) of
                Inl e \<Rightarrow> Inl e
              | Inr tys1 \<Rightarrow>
                 (case get_prop tys1 ''schema'' of
                    None \<Rightarrow> Inl (TypeError ''Cannot read properties of undefined'')
                  | Some schema \<Rightarrow> Inr (upd_prop defs1 ''types'' tys1, schema)))))"

text \<open>
  The schema node is shared with the definitions node that holds it, so what the
  resolver stores in the schema is visible through \<open>defs.types.schema\<close>.
\<close>

definition put_schema :: "jv \<Rightarrow> jv \<Rightarrow> jv" where
  "put_schema defs schema =
     (case get_prop defs ''types'' of
        None \<Rightarrow> defs
      | Some tys \<Rightarrow> upd_prop defs ''types'' (upd_prop tys ''schema'' schema))"

fun mergeSchema_keys :: "string list \<Rightarrow> jv \<Rightarrow> jv \<Rightarrow> error + jv" where
  "mergeSchema_keys [] dest src = Inr dest"
| "mergeSchema_keys (key # keys) dest src =
     (let srcItems = arr (get_prop src key)
      in if srcItems = [] then mergeSchema_keys keys dest src
         else (case set_prop dest key (JArr (arr (get_prop dest key) @ srcItems) []) of
                 Inl e \<Rightarrow> Inl e
               | Inr dest' \<Rightarrow> mergeSchema_keys keys dest' src))"

definition mergeSchema :: "jv \<Rightarrow> jv \<Rightarrow> error + jv" where
  "mergeSchema dest src = mergeSchema_keys XSD_TYPE_KEYS dest src"

definition name_of :: "jv \<Rightarrow> string option" where
  "name_of n = get_attr n ''@_name''"

text \<open>One key of \<open>mergeWsdlDefs\<close>: the items of the source whose name the destination lacks.\<close>

definition newItems_of :: "jv list \<Rightarrow> jv list \<Rightarrow> jv list" where
  "newItems_of destItems srcItems =
     (let existingNames = set (map name_of destItems)
      in filter (\<lambda>n. name_of n \<notin> existingNames) srcItems)"

fun mergeWsdlDefs_keys :: "string list \<Rightarrow> jv \<Rightarrow> jv \<Rightarrow> error + jv" where
  "mergeWsdlDefs_keys [] dest src = Inr dest"
| "mergeWsdlDefs_keys (key # keys) dest src =
     (let srcItems = arr (get_prop src key)
      in if srcItems = [] then mergeWsdlDefs_keys keys dest src
         else (let destItems = arr (get_prop dest key)
               in case set_prop dest key (JArr (destItems @ newItems_of destItems srcItems) []) of
                    Inl e \<Rightarrow> Inl e
                  | Inr dest' \<Rightarrow> mergeWsdlDefs_keys keys dest' src))"

definition mergeWsdlDefs :: "jv \<Rightarrow> jv \<Rightarrow> error + jv" where
  "mergeWsdlDefs dest src = mergeWsdlDefs_keys WSDL_DEF_KEYS dest src"

subsection \<open>The recursive resolution\<close>

text \<open>
  The resolver recurses into every document it fetches, and a server may answer every
  fetch with a document that imports a fresh location, so the recursion has no bound of
  its own. The model takes fuel: a nested resolution uses one unit, and \<open>None\<close> is the
  answer of a run that asks for more than it was given. A result \<open>Some (Inl e)\<close> is a
  rejected promise, \<open>Some (Inr (tree, visited))\<close> a fulfilled one together with the
  visited set as the run leaves it. A JavaScript \<open>Set\<close> keeps its members in the order
  of insertion, so the visited set is a list: \<open>visited.has(x)\<close> is membership, and
  \<open>visited.add(x)\<close>, which the code calls only for an \<open>x\<close> that is not a member,
  appends \<open>x\<close>. A location is passed to \<open>fetchSource\<close> only in the step that has just
  appended it.

  \<open>xsd_loop\<close> is the \<open>for\<close> loop of \<open>resolveXsdImports\<close> over the import and include
  nodes that were in the schema when the loop began; the schema and the visited set
  change as it runs.
\<close>

definition xsd_imports :: "jv \<Rightarrow> jv list" where
  "xsd_imports schema = arr (get_prop schema ''import'') @ arr (get_prop schema ''include'')"

fun xsd_loop ::
  "nat \<Rightarrow> env \<Rightarrow> jv list \<Rightarrow> jv \<Rightarrow> string \<Rightarrow> string list \<Rightarrow> (error + jv \<times> string list) option"
where
  "xsd_loop fuel env [] schema baseDir visited = Some (Inr (schema, visited))"
| "xsd_loop fuel env (imp # imps) schema baseDir visited =
     (case get_attr imp ''@_schemaLocation'' of
        None \<Rightarrow> xsd_loop fuel env imps schema baseDir visited
      | Some loc \<Rightarrow>
         if loc = [] then xsd_loop fuel env imps schema baseDir visited
         else if absoluteLocation env loc baseDir \<in> set visited
         then xsd_loop fuel env imps schema baseDir visited
         else
          (case fetchSource env (absoluteLocation env loc baseDir) of
             Inl e \<Rightarrow> Some (Inl e)
           | Inr xsdXml \<Rightarrow>
              (case parseXsd env xsdXml of
                 Inl e \<Rightarrow> Some (Inl e)
               | Inr importedSchema \<Rightarrow>
                  (case fuel of
                     0 \<Rightarrow> None
                   | Suc n \<Rightarrow>
                      (case xsd_loop n env (xsd_imports importedSchema) importedSchema
                              (baseDirOf env (absoluteLocation env loc baseDir))
                              (visited @ [absoluteLocation env loc baseDir]) of
                         None \<Rightarrow> None
                       | Some (Inl e) \<Rightarrow> Some (Inl e)
                       | Some (Inr (merged, visited')) \<Rightarrow>
                          (case mergeSchema schema merged of
                             Inl e \<Rightarrow> Some (Inl e)
                           | Inr schema' \<Rightarrow> xsd_loop fuel env imps schema' baseDir visited'))))))"

definition resolveXsdImports ::
  "nat \<Rightarrow> env \<Rightarrow> jv \<Rightarrow> string \<Rightarrow> string list \<Rightarrow> (error + jv \<times> string list) option"
where
  "resolveXsdImports fuel env schema baseDir visited =
     xsd_loop fuel env (xsd_imports schema) schema baseDir visited"

text \<open>
  \<open>resolveWsdl\<close> and the loop of \<open>resolveWsdlImports\<close> call each other. \<open>resolveWsdl\<close>
  returns the raw tree; the definitions node inside it is the one the two resolvers
  have stored into.
\<close>

fun resolveWsdl ::
  "nat \<Rightarrow> env \<Rightarrow> string \<Rightarrow> string \<Rightarrow> string list \<Rightarrow> (error + jv \<times> string list) option"
and wsdl_loop ::
  "nat \<Rightarrow> env \<Rightarrow> jv list \<Rightarrow> jv \<Rightarrow> string \<Rightarrow> string list \<Rightarrow> (error + jv \<times> string list) option"
where
  "resolveWsdl fuel env xml baseDir visited =
     (case parseWsdl env xml of
        Inl e \<Rightarrow> Some (Inl e)
      | Inr raw \<Rightarrow>
         (case get_prop raw ''definitions'' of
            None \<Rightarrow> Some (Inl (TypeError ''Cannot read properties of undefined''))
          | Some defs \<Rightarrow>
             (case ensureSchema defs of
                Inl e \<Rightarrow> Some (Inl e)
              | Inr (defs1, schema) \<Rightarrow>
                 (case xsd_loop fuel env (xsd_imports schema) schema baseDir visited of
                    None \<Rightarrow> None
                  | Some (Inl e) \<Rightarrow> Some (Inl e)
                  | Some (Inr (schema', visited1)) \<Rightarrow>
                     (case wsdl_loop fuel env (arr (get_prop (put_schema defs1 schema') ''import''))
                             (put_schema defs1 schema') baseDir visited1 of
                        None \<Rightarrow> None
                      | Some (Inl e) \<Rightarrow> Some (Inl e)
                      | Some (Inr (defs', visited2)) \<Rightarrow>
                         Some (Inr (upd_prop raw ''definitions'' defs', visited2)))))))"
| "wsdl_loop fuel env [] defs baseDir visited = Some (Inr (defs, visited))"
| "wsdl_loop fuel env (imp # imps) defs baseDir visited =
     (case get_attr imp ''@_location'' of
        None \<Rightarrow> wsdl_loop fuel env imps defs baseDir visited
      | Some loc \<Rightarrow>
         if loc = [] then wsdl_loop fuel env imps defs baseDir visited
         else if absoluteLocation env loc baseDir \<in> set visited
         then wsdl_loop fuel env imps defs baseDir visited
         else
          (case fetchSource env (absoluteLocation env loc baseDir) of
             Inl e \<Rightarrow> Some (Inl e)
           | Inr importedXml \<Rightarrow>
              (case fuel of
                 0 \<Rightarrow> None
               | Suc n \<Rightarrow>
                  (case resolveWsdl n env importedXml
                          (baseDirOf env (absoluteLocation env loc baseDir))
                          (visited @ [absoluteLocation env loc baseDir]) of
                     None \<Rightarrow> None
                   | Some (Inl e) \<Rightarrow> Some (Inl e)
                   | Some (Inr (importedRaw, visited')) \<Rightarrow>
                      (case get_prop importedRaw ''definitions'' of
                         None \<Rightarrow> Some (Inl (TypeError ''Cannot read properties of undefined''))
                       | Some importedDefs \<Rightarrow>
                          (case mergeWsdlDefs defs importedDefs of
                             Inl e \<Rightarrow> Some (Inl e)
                           | Inr defs' \<Rightarrow> wsdl_loop fuel env imps defs' baseDir visited'))))))"

definition resolveWsdlImports ::
  "nat \<Rightarrow> env \<Rightarrow> jv \<Rightarrow> string \<Rightarrow> string list \<Rightarrow> (error + jv \<times> string list) option"
where
  "resolveWsdlImports fuel env defs baseDir visited =
     wsdl_loop fuel env (arr (get_prop defs ''import'')) defs baseDir visited"

text \<open>\<open>loadWsdl\<close> starts from an empty visited set and returns the tree alone.\<close>

definition loadWsdl :: "nat \<Rightarrow> env \<Rightarrow> string \<Rightarrow> string \<Rightarrow> (error + jv) option" where
  "loadWsdl fuel env xml baseDir =
     map_option (map_sum id fst) (resolveWsdl fuel env xml baseDir [])"

text \<open>
  The equation of \<open>resolveWsdl\<close> has no pattern to wait for; it is unfolded only where
  a proof asks for it.
\<close>

declare resolveWsdl.simps [simp del]

text \<open>
  The import graph. The targets of a list of import nodes are the absolute locations of
  those that carry a location, as the loops compute them; the targets of a schema are
  those of its import and include nodes, the targets of a document those of the schema
  node that the resolver reads and of the import nodes of its definitions node.
  \<open>schema_at\<close> and \<open>document_at\<close> are what the resolver gets at a location when it
  fetches it from a schema import and from a document import. A set of locations is
  closed under imports when it holds the targets of whatever is found at its members.
\<close>

definition import_targets :: "env \<Rightarrow> string \<Rightarrow> jv list \<Rightarrow> string \<Rightarrow> string list" where
  "import_targets env key imps baseDir =
     concat (map (\<lambda>imp. case get_attr imp key of
                          None \<Rightarrow> []
                        | Some loc \<Rightarrow> if loc = [] then [] else [absoluteLocation env loc baseDir])
                 imps)"

definition schema_targets :: "env \<Rightarrow> jv \<Rightarrow> string \<Rightarrow> string list" where
  "schema_targets env schema baseDir =
     import_targets env ''@_schemaLocation'' (xsd_imports schema) baseDir"

definition document_targets :: "env \<Rightarrow> jv \<Rightarrow> string \<Rightarrow> string list" where
  "document_targets env raw baseDir =
     (case get_prop raw ''definitions'' of
        None \<Rightarrow> []
      | Some defs \<Rightarrow>
          schema_targets env (schema_of defs) baseDir
          @ import_targets env ''@_location'' (arr (get_prop defs ''import'')) baseDir)"

definition schema_at :: "env \<Rightarrow> string \<Rightarrow> jv option" where
  "schema_at env l =
     (case fetchSource env l of
        Inl e \<Rightarrow> None
      | Inr t \<Rightarrow> (case parseXsd env t of Inl e \<Rightarrow> None | Inr schema \<Rightarrow> Some schema))"

definition document_at :: "env \<Rightarrow> string \<Rightarrow> jv option" where
  "document_at env l =
     (case fetchSource env l of
        Inl e \<Rightarrow> None
      | Inr t \<Rightarrow> (case parseWsdl env t of Inl e \<Rightarrow> None | Inr raw \<Rightarrow> Some raw))"


text \<open>
  A location is resolved within a set of locations when it was fetched and parsed, as a
  schema or as a document, and the set holds the targets of what was found there.
\<close>

definition resolved_within :: "env \<Rightarrow> string set \<Rightarrow> string \<Rightarrow> bool" where
  "resolved_within env S l =
     ((\<exists>schema. schema_at env l = Some schema
          \<and> set (schema_targets env schema (baseDirOf env l)) \<subseteq> S)
      \<or> (\<exists>raw. document_at env l = Some raw
            \<and> set (document_targets env raw (baseDirOf env l)) \<subseteq> S))"

text \<open>
  The locations that the schema imports lead to, from a list of targets on: the targets
  themselves, and the targets of the schema found at a location so reached.
\<close>

inductive schema_reached :: "env \<Rightarrow> string list \<Rightarrow> string \<Rightarrow> bool" for env roots where
  root: "l \<in> set roots \<Longrightarrow> schema_reached env roots l"
| step: "schema_reached env roots l \<Longrightarrow> schema_at env l = Some schema \<Longrightarrow>
         l' \<in> set (schema_targets env schema (baseDirOf env l)) \<Longrightarrow>
         schema_reached env roots l'"


definition definitions_at :: "env \<Rightarrow> string \<Rightarrow> string \<Rightarrow> jv list" where
  "definitions_at env key l =
     (case document_at env l of
        None \<Rightarrow> []
      | Some raw \<Rightarrow>
          (case get_prop raw ''definitions'' of
             None \<Rightarrow> []
           | Some defs \<Rightarrow> arr (get_prop defs key)))"

text \<open>
  A location is loadable when its fetch succeeds and the text parses: as a schema, or as
  a document with a definitions root. An error mentions a location when its message
  contains it.
\<close>

definition loadable :: "env \<Rightarrow> string \<Rightarrow> bool" where
  "loadable env l =
     (case fetchSource env l of
        Inl e \<Rightarrow> False
      | Inr t \<Rightarrow> xml_parse env XsdCfg t \<noteq> None
                 \<or> (case parseWsdl env t of Inl e \<Rightarrow> False | Inr raw \<Rightarrow> True))"

definition mentions :: "error \<Rightarrow> string \<Rightarrow> bool" where
  "mentions e l = sublist l (message_of e)"

text \<open>The values on which a property cannot be stored.\<close>

fun is_str :: "jv \<Rightarrow> bool" where
  "is_str (JStr s) = True"
| "is_str v = False"

text \<open>
  The import and include nodes of a raw tree that carry a location: those of the schema
  node that the normaliser reads, then those of the definitions node. \<open>tree_of\<close> is the
  tree of a fulfilled promise.
\<close>

definition has_location :: "string \<Rightarrow> jv \<Rightarrow> bool" where
  "has_location key n = (case get_attr n key of None \<Rightarrow> False | Some loc \<Rightarrow> loc \<noteq> [])"

definition located_directives :: "jv \<Rightarrow> jv list" where
  "located_directives raw =
     (case get_prop raw ''definitions'' of
        None \<Rightarrow> []
      | Some defs \<Rightarrow>
          filter (has_location ''@_schemaLocation'') (xsd_imports (schema_of defs))
          @ filter (has_location ''@_location'') (arr (get_prop defs ''import'')))"

definition tree_of :: "(error + jv) option \<Rightarrow> jv" where
  "tree_of r = (case r of Some (Inr raw) \<Rightarrow> raw | _ \<Rightarrow> JStr [])"


definition count_named :: "string \<Rightarrow> typeObject list \<Rightarrow> nat" where
  "count_named n ts = length (filter (\<lambda>t. type_name t = n) ts)"

section \<open>Example documents\<close>

text \<open>Concrete models and nodes, on which the properties below are evaluated.\<close>

definition self_type :: typeObject where
  "self_type =
     \<lparr> type_name = ''Self'', type_kind = ''complexType'', type_documentation = [],
       type_fields = [\<lparr> field_name = ''child'', field_type = ''Self'',
                         field_minOccurs = ''0'', field_maxOccurs = ''1'',
                         field_documentation = [] \<rparr>],
       type_enumerations = [] \<rparr>"

definition self_message :: messageObject where
  "self_message =
     \<lparr> message_name = ''M'',
       message_parts = [\<lparr> part_name = ''p'', part_element = [], part_type = ''Self'' \<rparr>] \<rparr>"

definition self_model :: model where
  "self_model =
     \<lparr> model_name = [], targetNamespace = [], model_documentation = [],
       types = [self_type], messages = [self_message],
       operations = [], bindings = [], endpoints = [] \<rparr>"

definition double_field :: "string \<Rightarrow> field" where
  "double_field n =
     \<lparr> field_name = n, field_type = ''double'', field_minOccurs = ''1'',
       field_maxOccurs = ''1'', field_documentation = [] \<rparr>"

definition add_type :: typeObject where
  "add_type =
     \<lparr> type_name = ''AddRequest'', type_kind = ''element'', type_documentation = [],
       type_fields = [double_field ''a'', double_field ''b''], type_enumerations = [] \<rparr>"

definition add_message :: messageObject where
  "add_message =
     \<lparr> message_name = ''AddInput'',
       message_parts = [\<lparr> part_name = ''p'', part_element = ''AddRequest'', part_type = [] \<rparr>] \<rparr>"

definition dangling_message :: messageObject where
  "dangling_message =
     \<lparr> message_name = ''Dangling'',
       message_parts = [\<lparr> part_name = ''q'', part_element = [], part_type = ''Missing'' \<rparr>] \<rparr>"

definition add_model :: model where
  "add_model =
     \<lparr> model_name = ''Calculator'', targetNamespace = [], model_documentation = [],
       types = [add_type], messages = [add_message, dangling_message],
       operations = [], bindings = [], endpoints = [] \<rparr>"

definition dup_type_first :: typeObject where
  "dup_type_first =
     \<lparr> type_name = ''T'', type_kind = ''complexType'', type_documentation = [],
       type_fields = [], type_enumerations = [] \<rparr>"

definition dup_type_last :: typeObject where
  "dup_type_last =
     \<lparr> type_name = ''T'', type_kind = ''simpleType'', type_documentation = [],
       type_fields = [], type_enumerations = [''x''] \<rparr>"

definition dup_message_first :: messageObject where
  "dup_message_first = \<lparr> message_name = ''M'', message_parts = [] \<rparr>"

definition dup_message_last :: messageObject where
  "dup_message_last =
     \<lparr> message_name = ''M'',
       message_parts = [\<lparr> part_name = ''p'', part_element = ''T'', part_type = [] \<rparr>] \<rparr>"

definition dup_model :: model where
  "dup_model =
     \<lparr> model_name = [], targetNamespace = [], model_documentation = [],
       types = [dup_type_first, dup_type_last],
       messages = [dup_message_first, dup_message_last],
       operations = [], bindings = [], endpoints = [] \<rparr>"

definition soap_http :: string where
  "soap_http = ''http://schemas.xmlsoap.org/soap/http''"

definition binding_transport_only :: jv where
  "binding_transport_only =
     JObj [(''@_name'', ''B''), (''@_type'', ''tns:PT'')]
          [(''binding'', JArr [JObj [(''@_transport'', soap_http)] []] [])]"

definition binding_outer_style :: jv where
  "binding_outer_style =
     JObj [(''@_name'', ''B''), (''@_style'', ''rpc''), (''@_transport'', soap_http)] []"

definition binding_bare :: jv where
  "binding_bare = JObj [(''@_name'', ''C'')] []"

definition self_model_more :: model where
  "self_model_more = self_model \<lparr> types := [add_type, self_type] \<rparr>"

text \<open>
  A directory \<open>/d\<close> with a document that imports itself, a document whose schema
  imports a schema, and two schemas that import each other. The texts of the files are tokens: the parser is a table from text to tree.
\<close>

definition enoent :: "string \<Rightarrow> string" where
  "enoent p = ''ENOENT: no such file or directory, open '' @ [CHR 0x27] @ p @ [CHR 0x27]"

definition dirname_simple :: "string \<Rightarrow> string" where
  "dirname_simple p = rev (tl (dropWhile (\<lambda>c. c \<noteq> CHR ''/'') (rev p)))"

definition self_doc :: jv where
  "self_doc =
     JObj [] [(''definitions'',
               JObj [(''@_name'', ''Self'')]
                    [(''import'', JArr [JObj [(''@_location'', ''self.wsdl'')] []] []),
                     (''message'', JArr [JObj [(''@_name'', ''M'')] []] [])])]"

definition root_x_doc :: jv where
  "root_x_doc =
     JObj [] [(''definitions'',
               JObj [(''@_name'', ''RootX'')]
                    [(''types'', JObj [] [(''schema'',
                        JObj [] [(''import'',
                                  JArr [JObj [(''@_schemaLocation'', ''x.xsd'')] []] [])])])])]"

definition x_doc :: jv where
  "x_doc =
     JObj [] [(''schema'',
               JObj [] [(''import'', JArr [JObj [(''@_schemaLocation'', ''y.xsd'')] []] []),
                        (''complexType'', JArr [JObj [(''@_name'', ''X'')] []] [])])]"

definition y_doc :: jv where
  "y_doc =
     JObj [] [(''schema'',
               JObj [] [(''include'', JArr [JObj [(''@_schemaLocation'', ''x.xsd'')] []] []),
                        (''simpleType'', JArr [JObj [(''@_name'', ''Y'')] []] [])])]"

definition cyc_env :: env where
  "cyc_env =
     \<lparr> readFile = map_of [(''/d/self.wsdl'', ''SELF''), (''/d/x.xsd'', ''X''), (''/d/y.xsd'', ''Y'')],
       readFile_error = enoent,
       http_fetch = (\<lambda>u. None),
       fetch_error = (\<lambda>u. ''fetch failed''),
       xml_parse = (\<lambda>cfg. map_of [(''SELF'', self_doc), (''ROOTX'', root_x_doc),
                                    (''X'', x_doc), (''Y'', y_doc)]),
       xml_error = (\<lambda>cfg xml. ''Unexpected end of input''),
       path_resolve = (\<lambda>baseDir loc. baseDir @ ''/'' @ loc),
       path_dirname = dirname_simple,
       url_dirname = dirname_simple \<rparr>"

text \<open>
  A document that imports a file without a definitions root, and a document whose schema
  imports a schema over HTTP that includes a location answering 404.
\<close>

definition root_bad_doc :: jv where
  "root_bad_doc =
     JObj [] [(''definitions'',
               JObj [(''@_name'', ''Root'')]
                    [(''import'', JArr [JObj [(''@_location'', ''bad.wsdl'')] []] [])])]"

definition bad_doc :: jv where
  "bad_doc = JObj [] [(''html'', JStr [])]"

definition root_web_doc :: jv where
  "root_web_doc =
     JObj [] [(''definitions'',
               JObj [(''@_name'', ''Web'')]
                    [(''types'', JObj [] [(''schema'',
                        JObj [] [(''import'',
                                  JArr [JObj [(''@_schemaLocation'', ''http://h/s/a.xsd'')] []] [])])])])]"

definition a_doc :: jv where
  "a_doc =
     JObj [] [(''schema'',
               JObj [] [(''include'', JArr [JObj [(''@_schemaLocation'', ''http://h/s/gone.xsd'')] []] [])])]"

definition web_env :: env where
  "web_env =
     \<lparr> readFile = map_of [(''/d/bad.wsdl'', ''BAD'')],
       readFile_error = enoent,
       http_fetch = map_of [(''http://h/s/a.xsd'', \<lparr> ok = True, status = 200, body = ''A'' \<rparr>),
                            (''http://h/s/gone.xsd'', \<lparr> ok = False, status = 404, body = [] \<rparr>)],
       fetch_error = (\<lambda>u. ''fetch failed''),
       xml_parse = (\<lambda>cfg. map_of [(''ROOTBAD'', root_bad_doc), (''BAD'', bad_doc),
                                    (''ROOTWEB'', root_web_doc), (''A'', a_doc)]),
       xml_error = (\<lambda>cfg xml. ''Unexpected end of input''),
       path_resolve = (\<lambda>baseDir loc. baseDir @ ''/'' @ loc),
       path_dirname = dirname_simple,
       url_dirname = dirname_simple \<rparr>"

text \<open>
  Definitions nodes for a merge, and a document that imports one declaring a message
  name twice.
\<close>

definition msg_A_first :: jv where
  "msg_A_first = JObj [(''@_name'', ''A'')] [(''part'', JArr [JObj [(''@_name'', ''p1'')] []] [])]"

definition msg_A_second :: jv where
  "msg_A_second = JObj [(''@_name'', ''A'')] [(''part'', JArr [JObj [(''@_name'', ''p2'')] []] [])]"

definition msg_B :: jv where
  "msg_B = JObj [(''@_name'', ''B'')] []"

definition dest_defs :: jv where
  "dest_defs = JObj [(''@_name'', ''Root'')] [(''message'', JArr [msg_A_first] [])]"

definition src_defs :: jv where
  "src_defs = JObj [(''@_name'', ''Imported'')] [(''message'', JArr [msg_A_second, msg_B] [])]"

definition root_dup_doc :: jv where
  "root_dup_doc =
     JObj [] [(''definitions'',
               JObj [(''@_name'', ''Root'')]
                    [(''import'', JArr [JObj [(''@_location'', ''dup.wsdl'')] []] [])])]"

definition dup_doc :: jv where
  "dup_doc =
     JObj [] [(''definitions'',
               JObj [(''@_name'', ''Dup'')]
                    [(''message'', JArr [msg_A_first, msg_A_second] [])])]"

definition dup_env :: env where
  "dup_env =
     \<lparr> readFile = map_of [(''/d/dup.wsdl'', ''DUP'')],
       readFile_error = enoent,
       http_fetch = (\<lambda>u. None),
       fetch_error = (\<lambda>u. ''fetch failed''),
       xml_parse = (\<lambda>cfg. map_of [(''ROOTDUP'', root_dup_doc), (''DUP'', dup_doc)]),
       xml_error = (\<lambda>cfg xml. ''Unexpected end of input''),
       path_resolve = (\<lambda>baseDir loc. baseDir @ ''/'' @ loc),
       path_dirname = dirname_simple,
       url_dirname = dirname_simple \<rparr>"

definition merged_messages :: "(error + jv) option \<Rightarrow> jv list" where
  "merged_messages r =
     (case r of
        Some (Inr raw) \<Rightarrow>
          (case get_prop raw ''definitions'' of
             None \<Rightarrow> []
           | Some defs \<Rightarrow> arr (get_prop defs ''message''))
      | _ \<Rightarrow> [])"

text \<open>A document whose types element holds text only, and the model without content.\<close>

definition odd_doc :: jv where
  "odd_doc =
     JObj [] [(''definitions'', JObj [(''@_name'', ''Odd'')] [(''types'', JStr ''abc'')])]"

definition odd_env :: env where
  "odd_env =
     \<lparr> readFile = (\<lambda>p. None),
       readFile_error = enoent,
       http_fetch = (\<lambda>u. None),
       fetch_error = (\<lambda>u. ''fetch failed''),
       xml_parse = (\<lambda>cfg. map_of [(''ODD'', odd_doc)]),
       xml_error = (\<lambda>cfg xml. ''Unexpected end of input''),
       path_resolve = (\<lambda>baseDir loc. baseDir @ ''/'' @ loc),
       path_dirname = dirname_simple,
       url_dirname = dirname_simple \<rparr>"

definition empty_model :: "string \<Rightarrow> model" where
  "empty_model n =
     \<lparr> model_name = n, targetNamespace = [], model_documentation = [],
       types = [], messages = [], operations = [], bindings = [], endpoints = [] \<rparr>"











text \<open>
  A machine without network on which every path is a directory, and a document
  whose schema imports one of them. \<open>fetch\<close> then rejects with the message
  \<open>fetch failed\<close>, and \<open>readFile\<close> with the message of \<open>EISDIR\<close>.
\<close>

definition root_dir_doc :: jv where
  "root_dir_doc =
     JObj [] [(''definitions'',
               JObj [(''@_name'', ''Dir'')]
                    [(''types'', JObj [] [(''schema'',
                        JObj [] [(''import'',
                                  JArr [JObj [(''@_schemaLocation'', ''schemas'')] []] [])])])])]"

definition down_env :: env where
  "down_env =
     \<lparr> readFile = (\<lambda>p. None),
       readFile_error = (\<lambda>p. ''EISDIR: illegal operation on a directory, read''),
       http_fetch = (\<lambda>u. None),
       fetch_error = (\<lambda>u. ''fetch failed''),
       xml_parse = (\<lambda>cfg. map_of [(''ROOTWEB'', root_web_doc), (''ROOTDIR'', root_dir_doc)]),
       xml_error = (\<lambda>cfg xml. ''Unexpected end of input''),
       path_resolve = (\<lambda>baseDir loc. baseDir @ ''/'' @ loc),
       path_dirname = dirname_simple,
       url_dirname = dirname_simple \<rparr>"



section \<open>Properties of the reference index\<close>

lemma foldl_upd_map_of:
  "foldl (\<lambda>m (k, v). m(k \<mapsto> v)) m0 ps = m0 ++ map_of (rev ps)"
proof (induction ps arbitrary: m0)
  case Nil
  show ?case by simp
next
  case (Cons p ps)
  obtain k v where p: "p = (k, v)" by (cases p)
  have "foldl (\<lambda>m (k, v). m(k \<mapsto> v)) m0 (p # ps)
          = foldl (\<lambda>m (k, v). m(k \<mapsto> v)) (m0(k \<mapsto> v)) ps"
    by (simp add: p)
  also have "\<dots> = m0(k \<mapsto> v) ++ map_of (rev ps)"
    by (rule Cons.IH)
  also have "\<dots> = m0 ++ map_of (rev (p # ps))"
    by (rule ext) (simp add: p map_add_def split: option.splits)
  finally show ?case .
qed

lemma js_Map_map_of: "js_Map ps = map_of (rev ps)"
  by (simp add: js_Map_def foldl_upd_map_of)

lemma js_Map_last:
  assumes "ps = xs @ (k, v) # ys" and "k \<notin> fst ` set ys"
  shows "js_Map ps k = Some v"
  using assms by (simp add: js_Map_map_of map_add_Some_iff map_of_eq_None_iff)

lemma js_Map_keyed_last:
  assumes "zs = xs @ z # ys" and "f z \<notin> f ` set ys"
  shows "js_Map (map (\<lambda>t. (f t, t)) zs) (f z) = Some z"
proof (rule js_Map_last)
  show "map (\<lambda>t. (f t, t)) zs = map (\<lambda>t. (f t, t)) xs @ (f z, z) # map (\<lambda>t. (f t, t)) ys"
    by (simp add: assms(1))
  show "f z \<notin> fst ` set (map (\<lambda>t. (f t, t)) ys)"
    using assms(2) by (simp add: image_image)
qed

text \<open>
  Claim C10. When the types array of a model holds several entries of one name, the
  index built by \<open>buildIndex\<close> maps the name to the last of them in array order: an
  entry followed by no entry of its name is the one the name maps to, whatever precedes
  it. The same holds for \<open>messageByName\<close> over the messages array.
\<close>

theorem buildIndex_last_entry_wins:
  "(types m = xs @ t # ys \<longrightarrow> type_name t \<notin> type_name ` set ys
      \<longrightarrow> typeByName (buildIndex m) (type_name t) = Some t)
   \<and> (messages m = ms @ g # ns \<longrightarrow> message_name g \<notin> message_name ` set ns
      \<longrightarrow> messageByName (buildIndex m) (message_name g) = Some g)"
proof -
  have ty: "typeByName (buildIndex m) (type_name t) = Some t"
    if "types m = xs @ t # ys" and "type_name t \<notin> type_name ` set ys"
    using js_Map_keyed_last [OF that] by (simp add: buildIndex_def)
  have msg: "messageByName (buildIndex m) (message_name g) = Some g"
    if "messages m = ms @ g # ns" and "message_name g \<notin> message_name ` set ns"
    using js_Map_keyed_last [OF that] by (simp add: buildIndex_def)
  show ?thesis using ty msg by blast
qed

theorem buildIndex_last_entry_wins_witness:
  "types dup_model = [dup_type_first] @ dup_type_last # []
   \<and> type_name dup_type_first = type_name dup_type_last
   \<and> dup_type_first \<noteq> dup_type_last
   \<and> typeByName (buildIndex dup_model) ''T'' = Some dup_type_last
   \<and> messages dup_model = [dup_message_first] @ dup_message_last # []
   \<and> message_name dup_message_first = message_name dup_message_last
   \<and> dup_message_first \<noteq> dup_message_last
   \<and> messageByName (buildIndex dup_model) ''M'' = Some dup_message_last"
  using buildIndex_last_entry_wins
          [of dup_model "[dup_type_first]" dup_type_last "[]"
              "[dup_message_first]" dup_message_last "[]"]
  by (simp add: dup_model_def dup_type_first_def dup_type_last_def
        dup_message_first_def dup_message_last_def)

section \<open>Properties of the resolver of message fields\<close>

text \<open>
  Claim C7. For a name that the message index lacks, \<open>resolveMessageFields\<close> returns the
  empty sequence. For a name it holds, the result has one descriptor per part of the
  message, in the order of the parts; the descriptor carries the name of the part; its
  type name is the element reference of the part if that is not empty, else the type
  reference; its fields and enumerations are those of the type that the type index holds
  under the type name, and are empty when the index holds none.
\<close>

theorem resolveMessageFields_descriptors:
  "(messageByName idx messageName = None \<longrightarrow> resolveMessageFields messageName idx = [])
   \<and> (\<forall>message. messageByName idx messageName = Some message \<longrightarrow>
         length (resolveMessageFields messageName idx) = length (message_parts message)
         \<and> (\<forall>i < length (message_parts message).
              partName (resolveMessageFields messageName idx ! i)
                = part_name (message_parts message ! i)
              \<and> typeName (resolveMessageFields messageName idx ! i)
                = (if part_element (message_parts message ! i) \<noteq> []
                   then part_element (message_parts message ! i)
                   else part_type (message_parts message ! i))
              \<and> (\<forall>t. typeByName idx (typeName (resolveMessageFields messageName idx ! i)) = Some t
                    \<longrightarrow> desc_fields (resolveMessageFields messageName idx ! i) = type_fields t
                      \<and> desc_enumerations (resolveMessageFields messageName idx ! i)
                          = type_enumerations t)
              \<and> (typeByName idx (typeName (resolveMessageFields messageName idx ! i)) = None
                    \<longrightarrow> desc_fields (resolveMessageFields messageName idx ! i) = []
                      \<and> desc_enumerations (resolveMessageFields messageName idx ! i) = [])))"
  by (simp add: resolveMessageFields_def refName_of_def Let_def)

lemma add_index:
  "messageByName (buildIndex add_model) ''NoSuchMessage'' = None"
  "messageByName (buildIndex add_model) ''AddInput'' = Some add_message"
  "messageByName (buildIndex add_model) ''Dangling'' = Some dangling_message"
  "typeByName (buildIndex add_model) ''AddRequest'' = Some add_type"
  "typeByName (buildIndex add_model) ''Missing'' = None"
  by (simp_all add: buildIndex_def js_Map_def add_model_def add_message_def
        dangling_message_def add_type_def)

theorem resolveMessageFields_descriptors_witness:
  "messageByName (buildIndex add_model) ''NoSuchMessage'' = None
   \<and> resolveMessageFields ''NoSuchMessage'' (buildIndex add_model) = []
   \<and> messageByName (buildIndex add_model) ''AddInput'' = Some add_message
   \<and> resolveMessageFields ''AddInput'' (buildIndex add_model)
       = [\<lparr> partName = ''p'', typeName = ''AddRequest'',
            desc_fields = [double_field ''a'', double_field ''b''],
            desc_enumerations = [] \<rparr>]
   \<and> messageByName (buildIndex add_model) ''Dangling'' = Some dangling_message
   \<and> resolveMessageFields ''Dangling'' (buildIndex add_model)
       = [\<lparr> partName = ''q'', typeName = ''Missing'', desc_fields = [],
            desc_enumerations = [] \<rparr>]"
proof -
  note spec = resolveMessageFields_descriptors
  have none: "resolveMessageFields ''NoSuchMessage'' (buildIndex add_model) = []"
    using spec [of "buildIndex add_model" "''NoSuchMessage''"] by (simp add: add_index)
  have add: "resolveMessageFields ''AddInput'' (buildIndex add_model)
       = [\<lparr> partName = ''p'', typeName = ''AddRequest'',
            desc_fields = [double_field ''a'', double_field ''b''],
            desc_enumerations = [] \<rparr>]"
    using spec [of "buildIndex add_model" "''AddInput''"]
    by (auto simp add: add_index add_message_def add_type_def length_Suc_conv)
  have dang: "resolveMessageFields ''Dangling'' (buildIndex add_model)
       = [\<lparr> partName = ''q'', typeName = ''Missing'', desc_fields = [],
            desc_enumerations = [] \<rparr>]"
    using spec [of "buildIndex add_model" "''Dangling''"]
    by (auto simp add: add_index dangling_message_def length_Suc_conv)
  show ?thesis by (simp add: none add dang add_index)
qed

text \<open>
  Claim C8. \<open>resolveMessageFields\<close> is defined without recursion, so it returns for
  every index, whatever cycles the type names form. It looks each part's type up once:
  the descriptor of a part holds exactly the field list of the type found under the
  part's reference, also when a field of that type names the type itself, and the result
  is the same for two indexes that agree on the message and on the types the parts refer
  to, so no type reached only through a field is ever read.
\<close>

theorem resolveMessageFields_one_level:
  "messageByName idx messageName = Some message \<longrightarrow>
     length (resolveMessageFields messageName idx) = length (message_parts message)
     \<and> (\<forall>i < length (message_parts message). \<forall>t.
           typeByName idx (refName_of (message_parts message ! i)) = Some t \<longrightarrow>
             desc_fields (resolveMessageFields messageName idx ! i) = type_fields t)
     \<and> (\<forall>idx'. messageByName idx' messageName = Some message
                 \<and> (\<forall>p \<in> set (message_parts message).
                        typeByName idx' (refName_of p) = typeByName idx (refName_of p))
             \<longrightarrow> resolveMessageFields messageName idx' = resolveMessageFields messageName idx)"
  by (simp add: resolveMessageFields_def Let_def)

lemma self_index:
  "messageByName (buildIndex self_model) ''M'' = Some self_message"
  "typeByName (buildIndex self_model) ''Self'' = Some self_type"
  "messageByName (buildIndex self_model_more) ''M'' = Some self_message"
  "typeByName (buildIndex self_model_more) ''Self'' = Some self_type"
  by (simp_all add: buildIndex_def js_Map_def self_model_def self_model_more_def
        self_message_def self_type_def add_type_def)

theorem resolveMessageFields_one_level_witness:
  "messageByName (buildIndex self_model) ''M'' = Some self_message
   \<and> typeByName (buildIndex self_model) ''Self'' = Some self_type
   \<and> (\<exists>f \<in> set (type_fields self_type). field_type f = type_name self_type)
   \<and> length (resolveMessageFields ''M'' (buildIndex self_model)) = 1
   \<and> desc_fields (resolveMessageFields ''M'' (buildIndex self_model) ! 0) = type_fields self_type
   \<and> resolveMessageFields ''M'' (buildIndex self_model_more)
       = resolveMessageFields ''M'' (buildIndex self_model)"
proof -
  note one = resolveMessageFields_one_level
               [of "buildIndex self_model" "''M''" self_message, THEN mp, OF self_index(1)]
  have parts: "message_parts self_message
                 = [\<lparr> part_name = ''p'', part_element = [], part_type = ''Self'' \<rparr>]"
    by (simp add: self_message_def)
  have ref: "refName_of \<lparr> part_name = ''p'', part_element = [], part_type = ''Self'' \<rparr> = ''Self''"
    by (simp add: refName_of_def)
  have len: "length (resolveMessageFields ''M'' (buildIndex self_model)) = 1"
    using one [THEN conjunct1] by (simp add: parts)
  have flds: "desc_fields (resolveMessageFields ''M'' (buildIndex self_model) ! 0)
                = type_fields self_type"
    by (rule one [THEN conjunct2, THEN conjunct1, rule_format, of 0 self_type])
       (simp_all add: parts ref self_index)
  have same: "resolveMessageFields ''M'' (buildIndex self_model_more)
                = resolveMessageFields ''M'' (buildIndex self_model)"
    by (rule one [THEN conjunct2, THEN conjunct2, rule_format, of "buildIndex self_model_more"])
       (simp add: parts ref self_index)
  have cyc: "\<exists>f \<in> set (type_fields self_type). field_type f = type_name self_type"
    by (simp add: self_type_def)
  show ?thesis using len flds same cyc self_index(1,2) by blast
qed

section \<open>Properties of the normaliser\<close>

text \<open>
  Claim C9 as stated fails: a binding whose protocol sub-descriptor omits the style
  attribute but carries a transport attribute gets the style \<open>document\<close> and that
  transport, not the empty string.
\<close>

theorem extractBindings_transport_counterexample:
  "first (arr (get_prop binding_transport_only ''binding''))
     = Some (JObj [(''@_transport'', soap_http)] [])
   \<and> get_attr (JObj [(''@_transport'', soap_http)] []) ''@_style'' = None
   \<and> map style (extractBindings [binding_transport_only]) = [''document'']
   \<and> map transport (extractBindings [binding_transport_only]) = [soap_http]
   \<and> soap_http \<noteq> []"
  by (simp add: extractBindings_def extractBinding_def binding_transport_only_def
        attr_or_def soap_http_def)

text \<open>
  Claim C9, amended. For every binding node the normaliser reads style and transport from
  the first nested node stored under the key \<open>binding\<close>, never from the outer node: two
  binding nodes with the same nested entry get the same style and transport. The style is
  \<open>document\<close> when the sub-descriptor is absent or has no style attribute; the
  transport is the empty string when the sub-descriptor is absent or has no transport
  attribute.
\<close>

theorem extractBindings_reads_sub_descriptor:
  "map style (extractBindings bs)
     = map (\<lambda>b. case first (arr (get_prop b ''binding'')) of
                   None \<Rightarrow> ''document''
                 | Some sub \<Rightarrow> (case get_attr sub ''@_style'' of
                                  None \<Rightarrow> ''document'' | Some s \<Rightarrow> s)) bs
   \<and> map transport (extractBindings bs)
     = map (\<lambda>b. case first (arr (get_prop b ''binding'')) of
                   None \<Rightarrow> []
                 | Some sub \<Rightarrow> (case get_attr sub ''@_transport'' of
                                  None \<Rightarrow> [] | Some s \<Rightarrow> s)) bs
   \<and> (\<forall>b b'. get_prop b ''binding'' = get_prop b' ''binding'' \<longrightarrow>
               style (extractBinding b) = style (extractBinding b')
               \<and> transport (extractBinding b) = transport (extractBinding b'))"
  by (simp add: extractBindings_def extractBinding_def attr_or_def split: option.splits)

theorem extractBindings_reads_sub_descriptor_witness:
  "get_prop binding_outer_style ''binding'' = get_prop binding_bare ''binding''
   \<and> get_attr binding_outer_style ''@_style'' = Some ''rpc''
   \<and> get_attr binding_outer_style ''@_transport'' = Some soap_http
   \<and> style (extractBinding binding_outer_style) = style (extractBinding binding_bare)
   \<and> transport (extractBinding binding_outer_style) = transport (extractBinding binding_bare)
   \<and> map style (extractBindings [binding_outer_style, binding_transport_only])
        = [''document'', ''document'']
   \<and> map transport (extractBindings [binding_outer_style, binding_transport_only])
        = [[], soap_http]"
proof -
  note sub = extractBindings_reads_sub_descriptor
  have same: "get_prop binding_outer_style ''binding'' = get_prop binding_bare ''binding''"
    by (simp add: binding_outer_style_def binding_bare_def)
  have eq: "style (extractBinding binding_outer_style) = style (extractBinding binding_bare)
            \<and> transport (extractBinding binding_outer_style)
                = transport (extractBinding binding_bare)"
    using sub [of "[]"] same by blast
  have vals: "map style (extractBindings [binding_outer_style, binding_transport_only])
                = [''document'', ''document'']
              \<and> map transport (extractBindings [binding_outer_style, binding_transport_only])
                = [[], soap_http]"
    using sub [of "[binding_outer_style, binding_transport_only]"]
    by (simp add: binding_outer_style_def binding_transport_only_def)
  show ?thesis using same eq vals by (simp add: binding_outer_style_def)
qed

section \<open>Runs of the resolver\<close>

text \<open>
  A successful run of a loop is either at its end, or skips an import (no location, an
  empty location, a location already visited), or fetches one: it appends the location to
  the visited set, resolves the fetched document with one unit of fuel less, merges the
  result and goes on. The two rules below give induction over successful runs in that
  form.
\<close>

lemma xsd_loop_ConsE:
  assumes "xsd_loop fuel env (imp # imps) schema baseDir visited = Some (Inr (s', vis'))"
  obtains (skip) "get_attr imp ''@_schemaLocation'' = None
                  \<or> get_attr imp ''@_schemaLocation'' = Some []
                  \<or> (\<exists>loc. get_attr imp ''@_schemaLocation'' = Some loc
                         \<and> absoluteLocation env loc baseDir \<in> set visited)"
                 "xsd_loop fuel env imps schema baseDir visited = Some (Inr (s', vis'))"
        | (fetch) loc xsdXml importedSchema n merged vis1 schema1
          where "get_attr imp ''@_schemaLocation'' = Some loc" "loc \<noteq> []"
            "absoluteLocation env loc baseDir \<notin> set visited"
            "fetchSource env (absoluteLocation env loc baseDir) = Inr xsdXml"
            "parseXsd env xsdXml = Inr importedSchema"
            "fuel = Suc n"
            "xsd_loop n env (xsd_imports importedSchema) importedSchema
               (baseDirOf env (absoluteLocation env loc baseDir))
               (visited @ [absoluteLocation env loc baseDir]) = Some (Inr (merged, vis1))"
            "mergeSchema schema merged = Inr schema1"
            "xsd_loop fuel env imps schema1 baseDir vis1 = Some (Inr (s', vis'))"
  using assms
  by (auto split: option.splits if_splits sum.splits nat.splits prod.splits)

lemma xsd_loop_run_induct [consumes 1, case_names Nil Skip Fetch]:
  assumes run: "xsd_loop fuel env imps schema baseDir visited = Some (Inr (s', vis'))"
    and nil: "\<And>fuel env schema baseDir visited. P fuel env [] schema baseDir visited schema visited"
    and skip: "\<And>fuel env imp imps schema baseDir visited s' vis'.
        get_attr imp ''@_schemaLocation'' = None
          \<or> get_attr imp ''@_schemaLocation'' = Some []
          \<or> (\<exists>loc. get_attr imp ''@_schemaLocation'' = Some loc
                 \<and> absoluteLocation env loc baseDir \<in> set visited) \<Longrightarrow>
        xsd_loop fuel env imps schema baseDir visited = Some (Inr (s', vis')) \<Longrightarrow>
        P fuel env imps schema baseDir visited s' vis' \<Longrightarrow>
        P fuel env (imp # imps) schema baseDir visited s' vis'"
    and fetch: "\<And>n env imp imps schema baseDir visited s' vis' loc xsdXml importedSchema
                   merged vis1 schema1.
        get_attr imp ''@_schemaLocation'' = Some loc \<Longrightarrow> loc \<noteq> [] \<Longrightarrow>
        absoluteLocation env loc baseDir \<notin> set visited \<Longrightarrow>
        fetchSource env (absoluteLocation env loc baseDir) = Inr xsdXml \<Longrightarrow>
        parseXsd env xsdXml = Inr importedSchema \<Longrightarrow>
        xsd_loop n env (xsd_imports importedSchema) importedSchema
           (baseDirOf env (absoluteLocation env loc baseDir))
           (visited @ [absoluteLocation env loc baseDir]) = Some (Inr (merged, vis1)) \<Longrightarrow>
        P n env (xsd_imports importedSchema) importedSchema
           (baseDirOf env (absoluteLocation env loc baseDir))
           (visited @ [absoluteLocation env loc baseDir]) merged vis1 \<Longrightarrow>
        mergeSchema schema merged = Inr schema1 \<Longrightarrow>
        xsd_loop (Suc n) env imps schema1 baseDir vis1 = Some (Inr (s', vis')) \<Longrightarrow>
        P (Suc n) env imps schema1 baseDir vis1 s' vis' \<Longrightarrow>
        P (Suc n) env (imp # imps) schema baseDir visited s' vis'"
  shows "P fuel env imps schema baseDir visited s' vis'"
  using run
proof (induction fuel env imps schema baseDir visited arbitrary: s' vis' rule: xsd_loop.induct)
  case (1 fuel env schema baseDir visited)
  then show ?case using nil by simp
next
  case (2 fuel env imp imps schema baseDir visited)
  from "2.prems" show ?case
  proof (cases rule: xsd_loop_ConsE)
    case skip
    have p: "P fuel env imps schema baseDir visited s' vis'"
    proof (cases "get_attr imp ''@_schemaLocation''")
      case None
      then show ?thesis using "2.IH"(1) skip(2) by blast
    next
      case (Some loc)
      show ?thesis
      proof (cases "loc = []")
        case True
        then show ?thesis using "2.IH"(2) Some skip(2) by blast
      next
        case False
        then have "absoluteLocation env loc baseDir \<in> set visited"
          using skip(1) Some by auto
        then show ?thesis using "2.IH"(3) Some False skip(2) by blast
      qed
    qed
    show ?thesis by (rule assms(3) [OF skip(1) skip(2) p])
  next
    case (fetch loc xsdXml importedSchema n merged vis1 schema1)
    have inner: "P n env (xsd_imports importedSchema) importedSchema
           (baseDirOf env (absoluteLocation env loc baseDir))
           (visited @ [absoluteLocation env loc baseDir]) merged vis1"
      using "2.IH"(4) [OF fetch(1,2,3,4,5,6) fetch(7)] .
    have rest: "P fuel env imps schema1 baseDir vis1 s' vis'"
      using "2.IH"(5) [OF fetch(1,2,3,4,5,6) fetch(7) refl refl fetch(8) fetch(9)] .
    show ?thesis
      using assms(4) [OF fetch(1,2,3,4,5) fetch(7) inner fetch(8)] fetch(6,9) rest by blast
  qed
qed

lemma resolveWsdlE:
  assumes "resolveWsdl fuel env xml baseDir visited = Some (Inr (raw', vis'))"
  obtains raw defs defs1 schema schema' vis1 defs'
  where "parseWsdl env xml = Inr raw" "get_prop raw ''definitions'' = Some defs"
    "ensureSchema defs = Inr (defs1, schema)"
    "xsd_loop fuel env (xsd_imports schema) schema baseDir visited = Some (Inr (schema', vis1))"
    "wsdl_loop fuel env (arr (get_prop (put_schema defs1 schema') ''import''))
       (put_schema defs1 schema') baseDir vis1 = Some (Inr (defs', vis'))"
    "raw' = upd_prop raw ''definitions'' defs'"
  using assms
  by (auto simp: resolveWsdl.simps split: option.splits sum.splits prod.splits)

lemma wsdl_loop_ConsE:
  assumes "wsdl_loop fuel env (imp # imps) defs baseDir visited = Some (Inr (d', vis'))"
  obtains (skip) "get_attr imp ''@_location'' = None
                  \<or> get_attr imp ''@_location'' = Some []
                  \<or> (\<exists>loc. get_attr imp ''@_location'' = Some loc
                         \<and> absoluteLocation env loc baseDir \<in> set visited)"
                 "wsdl_loop fuel env imps defs baseDir visited = Some (Inr (d', vis'))"
        | (fetch) loc importedXml n importedRaw vis1 importedDefs defs1
          where "get_attr imp ''@_location'' = Some loc" "loc \<noteq> []"
            "absoluteLocation env loc baseDir \<notin> set visited"
            "fetchSource env (absoluteLocation env loc baseDir) = Inr importedXml"
            "fuel = Suc n"
            "resolveWsdl n env importedXml
               (baseDirOf env (absoluteLocation env loc baseDir))
               (visited @ [absoluteLocation env loc baseDir])
               = Some (Inr (importedRaw, vis1))"
            "get_prop importedRaw ''definitions'' = Some importedDefs"
            "mergeWsdlDefs defs importedDefs = Inr defs1"
            "wsdl_loop fuel env imps defs1 baseDir vis1 = Some (Inr (d', vis'))"
  using assms
  by (auto split: option.splits if_splits sum.splits nat.splits prod.splits)


lemma wsdl_run_induct_aux:
  assumes res: "\<And>fuel env xml baseDir visited raw defs defs1 schema schema' vis1 defs' vis'.
        parseWsdl env xml = Inr raw \<Longrightarrow> get_prop raw ''definitions'' = Some defs \<Longrightarrow>
        ensureSchema defs = Inr (defs1, schema) \<Longrightarrow>
        xsd_loop fuel env (xsd_imports schema) schema baseDir visited
          = Some (Inr (schema', vis1)) \<Longrightarrow>
        wsdl_loop fuel env (arr (get_prop (put_schema defs1 schema') ''import''))
          (put_schema defs1 schema') baseDir vis1 = Some (Inr (defs', vis')) \<Longrightarrow>
        Q fuel env (arr (get_prop (put_schema defs1 schema') ''import''))
          (put_schema defs1 schema') baseDir vis1 defs' vis' \<Longrightarrow>
        P fuel env xml baseDir visited (upd_prop raw ''definitions'' defs') vis'"
    and nil: "\<And>fuel env defs baseDir visited. Q fuel env [] defs baseDir visited defs visited"
    and skip: "\<And>fuel env imp imps defs baseDir visited d' vis'.
        get_attr imp ''@_location'' = None
          \<or> get_attr imp ''@_location'' = Some []
          \<or> (\<exists>loc. get_attr imp ''@_location'' = Some loc
                 \<and> absoluteLocation env loc baseDir \<in> set visited) \<Longrightarrow>
        wsdl_loop fuel env imps defs baseDir visited = Some (Inr (d', vis')) \<Longrightarrow>
        Q fuel env imps defs baseDir visited d' vis' \<Longrightarrow>
        Q fuel env (imp # imps) defs baseDir visited d' vis'"
    and fetch: "\<And>n env imp imps defs baseDir visited d' vis' loc importedXml importedRaw
                   vis1 importedDefs defs1.
        get_attr imp ''@_location'' = Some loc \<Longrightarrow> loc \<noteq> [] \<Longrightarrow>
        absoluteLocation env loc baseDir \<notin> set visited \<Longrightarrow>
        fetchSource env (absoluteLocation env loc baseDir) = Inr importedXml \<Longrightarrow>
        resolveWsdl n env importedXml (baseDirOf env (absoluteLocation env loc baseDir))
           (visited @ [absoluteLocation env loc baseDir])
           = Some (Inr (importedRaw, vis1)) \<Longrightarrow>
        P n env importedXml (baseDirOf env (absoluteLocation env loc baseDir))
           (visited @ [absoluteLocation env loc baseDir]) importedRaw vis1 \<Longrightarrow>
        get_prop importedRaw ''definitions'' = Some importedDefs \<Longrightarrow>
        mergeWsdlDefs defs importedDefs = Inr defs1 \<Longrightarrow>
        wsdl_loop (Suc n) env imps defs1 baseDir vis1 = Some (Inr (d', vis')) \<Longrightarrow>
        Q (Suc n) env imps defs1 baseDir vis1 d' vis' \<Longrightarrow>
        Q (Suc n) env (imp # imps) defs baseDir visited d' vis'"
  shows "\<forall>raw' vis'. resolveWsdl fuel env xml baseDir visited = Some (Inr (raw', vis'))
           \<longrightarrow> P fuel env xml baseDir visited raw' vis'"
    and "\<forall>d' vis'. wsdl_loop fuel' env' imps defs baseDir' visited' = Some (Inr (d', vis'))
           \<longrightarrow> Q fuel' env' imps defs baseDir' visited' d' vis'"
proof (induction fuel env xml baseDir visited and fuel' env' imps defs baseDir' visited'
       rule: resolveWsdl_wsdl_loop.induct)
  case (1 fuel env xml baseDir visited)
  show ?case
  proof (intro allI impI)
    fix raw' vis'
    assume run: "resolveWsdl fuel env xml baseDir visited = Some (Inr (raw', vis'))"
    from run show "P fuel env xml baseDir visited raw' vis'"
    proof (cases rule: resolveWsdlE)
      case (1 raw defs defs1 schema schema' vis1 defs')
      have q: "Q fuel env (arr (get_prop (put_schema defs1 schema') ''import''))
                 (put_schema defs1 schema') baseDir vis1 defs' vis'"
        using "1.IH" [OF 1(1) 1(2) 1(3) refl 1(4) refl refl] 1(5) by blast
      show ?thesis
        unfolding 1(6) by (rule res [OF 1(1) 1(2) 1(3) 1(4) 1(5) q])
    qed
  qed
next
  case (2 fuel env defs baseDir visited)
  show ?case using nil by simp
next
  case (3 fuel env imp imps defs baseDir visited)
  show ?case
  proof (intro allI impI)
    fix d' vis'
    assume run: "wsdl_loop fuel env (imp # imps) defs baseDir visited = Some (Inr (d', vis'))"
    from run show "Q fuel env (imp # imps) defs baseDir visited d' vis'"
    proof (cases rule: wsdl_loop_ConsE)
      case skip
      have q: "Q fuel env imps defs baseDir visited d' vis'"
      proof (cases "get_attr imp ''@_location''")
        case None
        then show ?thesis using "3.IH"(1) skip(2) by blast
      next
        case (Some loc)
        show ?thesis
        proof (cases "loc = []")
          case True
          then show ?thesis using "3.IH"(2) Some skip(2) by blast
        next
          case False
          then have "absoluteLocation env loc baseDir \<in> set visited"
            using skip(1) Some by auto
          then show ?thesis using "3.IH"(3) Some False skip(2) by blast
        qed
      qed
      show ?thesis by (rule assms(3) [OF skip(1) skip(2) q])
    next
      case (fetch loc importedXml n importedRaw vis1 importedDefs defs1)
      have inner: "P n env importedXml (baseDirOf env (absoluteLocation env loc baseDir))
           (visited @ [absoluteLocation env loc baseDir]) importedRaw vis1"
        using "3.IH"(4) [OF fetch(1,2,3,4,5)] fetch(6) by blast
      have rest: "Q fuel env imps defs1 baseDir vis1 d' vis'"
        using "3.IH"(5) [OF fetch(1,2,3,4,5) fetch(6) refl refl fetch(7) fetch(8)] fetch(9)
        by blast
      show ?thesis
        using assms(4) [OF fetch(1,2,3,4) fetch(6) inner fetch(7) fetch(8)] fetch(5,9) rest
        by blast
    qed
  qed
qed


lemmas resolveWsdl_run_induct = wsdl_run_induct_aux(1) [rule_format]
lemmas wsdl_loop_run_induct = wsdl_run_induct_aux(2) [rule_format]

lemma xsd_loop_prefix:
  "xsd_loop fuel env imps schema baseDir visited = Some (Inr (s', vis')) \<Longrightarrow> prefix visited vis'"
proof (induction rule: xsd_loop_run_induct)
  case (Fetch n env imp imps schema baseDir visited s' vis' loc xsdXml importedSchema merged vis1 schema1)
  then show ?case by (meson append_prefixD prefix_order.trans)
qed simp_all

lemma wsdl_prefix:
  "resolveWsdl fuel env xml baseDir visited = Some (Inr (raw', vis')) \<longrightarrow> prefix visited vis'"
  "wsdl_loop fuel' env' imps defs baseDir' visited' = Some (Inr (d', vis'')) \<longrightarrow> prefix visited' vis''"
proof -
  have "\<forall>raw' vis'. resolveWsdl fuel env xml baseDir visited = Some (Inr (raw', vis'))
           \<longrightarrow> prefix visited vis'"
    and "\<forall>d' vis'. wsdl_loop fuel' env' imps defs baseDir' visited' = Some (Inr (d', vis'))
           \<longrightarrow> prefix visited' vis'"
  proof (induction rule: wsdl_run_induct_aux
           [where P = "\<lambda>fuel env xml baseDir visited raw' vis'. prefix visited vis'"
              and Q = "\<lambda>fuel env imps defs baseDir visited d' vis'. prefix visited vis'"])
    case (1 fuel env xml baseDir visited raw defs defs1 schema schema' vis1 defs' vis')
    then show ?case using xsd_loop_prefix by (meson prefix_order.trans)
  next
    case (4 n env imp imps defs baseDir visited d' vis' loc importedXml importedRaw vis1 importedDefs defs1)
    then show ?case by (meson append_prefixD prefix_order.trans)
  qed simp_all
  then show "resolveWsdl fuel env xml baseDir visited = Some (Inr (raw', vis')) \<longrightarrow> prefix visited vis'"
    and "wsdl_loop fuel' env' imps defs baseDir' visited' = Some (Inr (d', vis'')) \<longrightarrow> prefix visited' vis''"
    by blast+
qed

section \<open>The visited set\<close>



lemmas loader_defs =
  resolveWsdl.simps show_nat.simps loadWsdl_def parseWsdl_def parseXsd_def ensureSchema_def xsd_imports_def put_schema_def
  absoluteLocation_def isUrl_def fetchSource_def baseDirOf_def dirname_simple_def
  mergeWsdlDefs_def WSDL_DEF_KEYS_def mergeSchema_def XSD_TYPE_KEYS_def
  newItems_of_def name_of_def resolveXsdImports_def

lemma parseXsd_Inr: "parseXsd env t = Inr s \<Longrightarrow> xml_parse env XsdCfg t \<noteq> None"
  by (auto simp: parseXsd_def split: option.splits)


lemma xsd_loop_loadable:
  "xsd_loop fuel env imps schema baseDir visited = Some (Inr (s', vis')) \<Longrightarrow>
   \<forall>l \<in> set vis'. l \<in> set visited \<or> loadable env l"
proof (induction rule: xsd_loop_run_induct)
  case (Fetch n env imp imps schema baseDir visited s' vis' loc xsdXml importedSchema merged vis1 schema1)
  have "loadable env (absoluteLocation env loc baseDir)"
    using Fetch(4,5) by (simp add: loadable_def parseXsd_Inr)
  then show ?case using Fetch.IH by auto
qed simp_all


lemma wsdl_loadable:
  "resolveWsdl fuel env xml baseDir visited = Some (Inr (raw', vis')) \<longrightarrow>
     (\<forall>l \<in> set vis'. l \<in> set visited \<or> loadable env l)"
  "wsdl_loop fuel' env' imps defs baseDir' visited' = Some (Inr (d', vis'')) \<longrightarrow>
     (\<forall>l \<in> set vis''. l \<in> set visited' \<or> loadable env' l)"
proof -
  have "\<forall>raw' vis'. resolveWsdl fuel env xml baseDir visited = Some (Inr (raw', vis'))
           \<longrightarrow> (\<forall>l \<in> set vis'. l \<in> set visited \<or> loadable env l)"
    and "\<forall>d' vis'. wsdl_loop fuel' env' imps defs baseDir' visited' = Some (Inr (d', vis'))
           \<longrightarrow> (\<forall>l \<in> set vis'. l \<in> set visited' \<or> loadable env' l)"
  proof (induction rule: wsdl_run_induct_aux
           [where P = "\<lambda>fuel env xml baseDir visited raw' vis'.
                          \<forall>l \<in> set vis'. l \<in> set visited \<or> loadable env l"
              and Q = "\<lambda>fuel env imps defs baseDir visited d' vis'.
                          \<forall>l \<in> set vis'. l \<in> set visited \<or> loadable env l"])
    case (1 fuel env xml baseDir visited raw defs defs1 schema schema' vis1 defs' vis')
    then show ?case using xsd_loop_loadable by blast
  next
    case (4 n env imp imps defs baseDir visited d' vis' loc importedXml importedRaw vis1 importedDefs defs1)
    obtain raw where "parseWsdl env importedXml = Inr raw"
      using 4(5) by (rule resolveWsdlE)
    then have "loadable env (absoluteLocation env loc baseDir)"
      using 4(4) by (simp add: loadable_def)
    then show ?case using 4(6) 4(10) by auto
  qed auto
  then show "resolveWsdl fuel env xml baseDir visited = Some (Inr (raw', vis')) \<longrightarrow>
     (\<forall>l \<in> set vis'. l \<in> set visited \<or> loadable env l)"
    and "wsdl_loop fuel' env' imps defs baseDir' visited' = Some (Inr (d', vis'')) \<longrightarrow>
     (\<forall>l \<in> set vis''. l \<in> set visited' \<or> loadable env' l)"
    by blast+
qed



section \<open>Merging\<close>

lemma get_prop_upd_prop:
  "get_prop (upd_prop v k x) k' = (if is_str v then None else if k' = k then Some x else get_prop v k')"
  by (cases v) (simp_all add: update_conv)

lemma get_attr_upd_prop [simp]: "get_attr (upd_prop v k x) a = get_attr v a"
  by (cases v) simp_all

lemma is_str_upd_prop [simp]: "is_str (upd_prop v k x) = is_str v"
  by (cases v) simp_all

lemma set_prop_Inr: "set_prop v k x = Inr v' \<longleftrightarrow> \<not> is_str v \<and> v' = upd_prop v k x"
  by (cases v) auto

lemma get_prop_is_str: "is_str v \<Longrightarrow> get_prop v k = None"
  by (cases v) simp_all

lemma mergeSchema_keys_props:
  "mergeSchema_keys keys dest src = Inr dest' \<Longrightarrow> distinct keys \<Longrightarrow>
   is_str dest' = is_str dest
   \<and> (\<forall>a. get_attr dest' a = get_attr dest a)
   \<and> (\<forall>k. k \<notin> set keys \<longrightarrow> get_prop dest' k = get_prop dest k)
   \<and> (\<forall>k. k \<in> set keys \<longrightarrow>
          arr (get_prop dest' k) = arr (get_prop dest k) @ arr (get_prop src k))"
proof (induction keys arbitrary: dest)
  case Nil
  then show ?case by simp
next
  case (Cons key keys)
  show ?case
  proof (cases "arr (get_prop src key) = []")
    case True
    then have "mergeSchema_keys keys dest src = Inr dest'"
      using Cons.prems(1) by simp
    then show ?thesis using Cons.IH Cons.prems(2) True by auto
  next
    case False
    define d1 where "d1 = upd_prop dest key (JArr (arr (get_prop dest key) @ arr (get_prop src key)) [])"
    have ns: "\<not> is_str dest" and rest: "mergeSchema_keys keys d1 src = Inr dest'"
      using Cons.prems(1) False
      by (auto simp: Let_def set_prop_Inr d1_def split: sum.splits)
    have ih: "is_str dest' = is_str d1
       \<and> (\<forall>a. get_attr dest' a = get_attr d1 a)
       \<and> (\<forall>k. k \<notin> set keys \<longrightarrow> get_prop dest' k = get_prop d1 k)
       \<and> (\<forall>k. k \<in> set keys \<longrightarrow>
              arr (get_prop dest' k) = arr (get_prop d1 k) @ arr (get_prop src k))"
      using Cons.IH [OF rest] Cons.prems(2) by simp
    have key: "key \<notin> set keys" using Cons.prems(2) by simp
    show ?thesis
      using ih ns key by (auto simp: d1_def get_prop_upd_prop)
  qed
qed


lemma mergeWsdlDefs_keys_props:
  "mergeWsdlDefs_keys keys dest src = Inr dest' \<Longrightarrow> distinct keys \<Longrightarrow>
   is_str dest' = is_str dest
   \<and> (\<forall>a. get_attr dest' a = get_attr dest a)
   \<and> (\<forall>k. k \<notin> set keys \<longrightarrow> get_prop dest' k = get_prop dest k)
   \<and> (\<forall>k. k \<in> set keys \<longrightarrow>
          arr (get_prop dest' k)
            = arr (get_prop dest k) @ newItems_of (arr (get_prop dest k)) (arr (get_prop src k)))"
proof (induction keys arbitrary: dest)
  case Nil
  then show ?case by simp
next
  case (Cons key keys)
  show ?case
  proof (cases "arr (get_prop src key) = []")
    case True
    then have "mergeWsdlDefs_keys keys dest src = Inr dest'"
      using Cons.prems(1) by simp
    then show ?thesis using Cons.IH Cons.prems(2) True by (auto simp: newItems_of_def)
  next
    case False
    define d1 where "d1 = upd_prop dest key
       (JArr (arr (get_prop dest key)
              @ newItems_of (arr (get_prop dest key)) (arr (get_prop src key))) [])"
    have ns: "\<not> is_str dest" and rest: "mergeWsdlDefs_keys keys d1 src = Inr dest'"
      using Cons.prems(1) False
      by (auto simp: Let_def set_prop_Inr d1_def split: sum.splits)
    have ih: "is_str dest' = is_str d1
       \<and> (\<forall>a. get_attr dest' a = get_attr d1 a)
       \<and> (\<forall>k. k \<notin> set keys \<longrightarrow> get_prop dest' k = get_prop d1 k)
       \<and> (\<forall>k. k \<in> set keys \<longrightarrow>
              arr (get_prop dest' k)
                = arr (get_prop d1 k) @ newItems_of (arr (get_prop d1 k)) (arr (get_prop src k)))"
      using Cons.IH [OF rest] Cons.prems(2) by simp
    have key: "key \<notin> set keys" using Cons.prems(2) by simp
    show ?thesis
      using ih ns key by (auto simp: d1_def get_prop_upd_prop)
  qed
qed

lemma mergeWsdlDefs_keys_ok:
  "\<not> is_str dest \<Longrightarrow> \<exists>dest'. mergeWsdlDefs_keys keys dest src = Inr dest'"
proof (induction keys arbitrary: dest)
  case Nil
  then show ?case by simp
next
  case (Cons key keys)
  then show ?case
    by (cases dest) (auto simp: Let_def)
qed

lemma distinct_newItems:
  assumes "distinct (map name_of ds)" "distinct (map name_of ss)"
  shows "distinct (map name_of (ds @ newItems_of ds ss))"
proof -
  have "name_of x \<noteq> name_of y" if "x \<in> set ds" "y \<in> set (newItems_of ds ss)" for x y
    using that by (simp add: newItems_of_def) (metis imageI)
  moreover have "distinct (map name_of (newItems_of ds ss))"
    using assms(2) by (simp add: newItems_of_def distinct_map_filter)
  ultimately show ?thesis using assms(1) by auto
qed

section \<open>The tree after a resolution\<close>

lemma upd_prop_triv: "get_prop v k = Some x \<Longrightarrow> upd_prop v k x = v"
  by (cases v) (simp_all add: update_triv)

lemma truthy_not_str: "\<not> is_str v \<Longrightarrow> truthy (Some v)"
  by (cases v) simp_all


lemma arr_not_Nil_Some: "arr p \<noteq> [] \<Longrightarrow> \<exists>x. p = Some x"
  by (cases p) simp_all


lemma xsd_imports_falsy: "\<not> truthy (Some s) \<Longrightarrow> xsd_imports s = []"
  by (cases s) (simp_all add: xsd_imports_def)

lemma extractTypes_falsy: "\<not> truthy (Some s) \<Longrightarrow> extractTypes s = []"
  by (cases s) (simp_all add: extractTypes_def element_types_def complex_types_def simple_types_def)

lemma extractTypes_empty [simp]: "extractTypes (JObj [] []) = []"
  by (simp add: extractTypes_def element_types_def complex_types_def simple_types_def)

lemma xsd_imports_empty [simp]: "xsd_imports (JObj [] []) = []"
  by (simp add: xsd_imports_def)

text \<open>What a successful \<open>ensureSchema\<close> returns.\<close>

lemma ensureSchema_props:
  assumes "ensureSchema defs = Inr (defs1, schema)"
  shows "\<not> is_str defs" "\<not> is_str defs1"
    "\<exists>tys1. get_prop defs1 ''types'' = Some tys1 \<and> \<not> is_str tys1
            \<and> get_prop tys1 ''schema'' = Some schema"
    "\<forall>k. k \<noteq> ''types'' \<longrightarrow> get_prop defs1 k = get_prop defs k"
    "\<forall>a. get_attr defs1 a = get_attr defs a"
    "xsd_imports schema = xsd_imports (schema_of defs)"
    "extractTypes schema = extractTypes (schema_of defs)"
proof -
  define d1 where "d1 = (if \<not> truthy (get_prop defs ''types'')
                          then upd_prop defs ''types'' (JObj [] []) else defs)"
  have ns: "\<not> is_str defs"
    using assms by (cases defs) (auto simp: ensureSchema_def)
  have s1: "(if \<not> truthy (get_prop defs ''types'')
             then set_prop defs ''types'' (JObj [] []) else Inr defs) = Inr d1"
    using ns by (cases defs) (auto simp: d1_def)
  have ns1: "\<not> is_str d1" using ns by (simp add: d1_def)
  obtain tys where tys: "get_prop d1 ''types'' = Some tys"
    using assms s1 by (auto simp: ensureSchema_def split: option.splits)
  have tys_truthy: "truthy (Some tys)"
    using tys ns by (auto simp: d1_def get_prop_upd_prop split: if_splits)
  define t1 where "t1 = (if \<not> truthy (get_prop tys ''schema'')
                          then upd_prop tys ''schema'' (JObj [] []) else tys)"
  have nst: "\<not> is_str tys"
    using assms s1 tys by (cases tys) (auto simp: ensureSchema_def)
  have s2: "(if \<not> truthy (get_prop tys ''schema'')
             then set_prop tys ''schema'' (JObj [] []) else Inr tys) = Inr t1"
    using nst by (cases tys) (auto simp: t1_def)
  have res: "get_prop t1 ''schema'' = Some schema" "defs1 = upd_prop d1 ''types'' t1"
    using assms s1 tys s2 by (auto simp: ensureSchema_def split: option.splits)
  have nst1: "\<not> is_str t1" using nst by (simp add: t1_def)
  show "\<not> is_str defs" by (rule ns)
  show "\<not> is_str defs1" using ns1 res(2) by simp
  show "\<exists>tys1. get_prop defs1 ''types'' = Some tys1 \<and> \<not> is_str tys1
            \<and> get_prop tys1 ''schema'' = Some schema"
    using res nst1 ns1 by (simp add: get_prop_upd_prop)
  show "\<forall>k. k \<noteq> ''types'' \<longrightarrow> get_prop defs1 k = get_prop defs k"
    using res(2) ns ns1 by (simp add: get_prop_upd_prop d1_def)
  show "\<forall>a. get_attr defs1 a = get_attr defs a"
    using res(2) by (simp add: d1_def)
  have cases: "schema = schema_of defs
               \<or> (schema = JObj [] [] \<and> \<not> truthy (Some (schema_of defs)))
               \<or> (schema = JObj [] [] \<and> schema_of defs = JObj [] [])"
  proof (cases "truthy (get_prop defs ''types'')")
    case True
    then have "d1 = defs" by (simp add: d1_def)
    then have t: "get_prop defs ''types'' = Some tys" using tys by simp
    show ?thesis
    proof (cases "truthy (get_prop tys ''schema'')")
      case True
      then show ?thesis using res(1) t by (auto simp: t1_def schema_of_def)
    next
      case False
      then have "schema = JObj [] []"
        using res(1) nst by (simp add: t1_def get_prop_upd_prop)
      then show ?thesis using False t
        by (cases "get_prop tys ''schema''") (auto simp: schema_of_def)
    qed
  next
    case False
    then have "tys = JObj [] []"
      using tys ns by (simp add: d1_def get_prop_upd_prop)
    then have s: "schema = JObj [] []"
      using res(1) by (simp add: t1_def)
    have "schema_of defs = JObj [] []"
      using False
      by (cases "get_prop defs ''types''")
         (auto simp: schema_of_def get_prop_is_str split: option.splits elim: truthy.elims)
    then show ?thesis using s by simp
  qed
  show "xsd_imports schema = xsd_imports (schema_of defs)"
    using cases by (auto simp: xsd_imports_falsy)
  show "extractTypes schema = extractTypes (schema_of defs)"
    using cases by (auto simp: extractTypes_falsy)
qed

lemma ensureSchema_ok:
  assumes "\<not> is_str defs"
    and "\<forall>t. get_prop defs ''types'' = Some t \<longrightarrow> \<not> truthy (Some t) \<or> \<not> is_str t"
  shows "\<exists>defs1 schema. ensureSchema defs = Inr (defs1, schema)"
proof (cases "truthy (get_prop defs ''types'')")
  case True
  then obtain t where t: "get_prop defs ''types'' = Some t" by (cases "get_prop defs ''types''") auto
  then have nst: "\<not> is_str t" using assms(2) True by auto
  show ?thesis
    using True t nst assms(1)
    by (cases t) (auto simp: ensureSchema_def get_prop_upd_prop update_conv split: option.splits)
next
  case False
  then show ?thesis
    using assms(1)
    by (cases defs) (auto simp: ensureSchema_def update_conv)
qed

lemma put_schema_props:
  assumes "\<not> is_str defs1" "get_prop defs1 ''types'' = Some tys1" "\<not> is_str tys1"
  shows "\<not> is_str (put_schema defs1 s)"
    "schema_of (put_schema defs1 s) = s"
    "\<forall>k. k \<noteq> ''types'' \<longrightarrow> get_prop (put_schema defs1 s) k = get_prop defs1 k"
    "\<forall>a. get_attr (put_schema defs1 s) a = get_attr defs1 a"
  using assms by (simp_all add: put_schema_def schema_of_def get_prop_upd_prop)

lemma put_schema_same:
  assumes "get_prop defs1 ''types'' = Some tys1" "get_prop tys1 ''schema'' = Some s"
  shows "put_schema defs1 s = defs1"
  using assms by (simp add: put_schema_def upd_prop_triv)

text \<open>A loop over imports that have no location, or a visited one, changes nothing.\<close>

lemma xsd_loop_nothing_to_do:
  "\<forall>imp \<in> set imps. \<forall>loc. get_attr imp ''@_schemaLocation'' = Some loc \<longrightarrow>
      loc = [] \<or> absoluteLocation env loc baseDir \<in> set visited \<Longrightarrow>
   xsd_loop fuel env imps schema baseDir visited = Some (Inr (schema, visited))"
  by (induction imps) (auto split: option.splits)

lemma wsdl_loop_nothing_to_do:
  "\<forall>imp \<in> set imps. \<forall>loc. get_attr imp ''@_location'' = Some loc \<longrightarrow>
      loc = [] \<or> absoluteLocation env loc baseDir \<in> set visited \<Longrightarrow>
   wsdl_loop fuel env imps defs baseDir visited = Some (Inr (defs, visited))"
  by (induction imps) (auto split: option.splits)

lemma mergeSchema_props:
  assumes "mergeSchema dest src = Inr dest'"
  shows "is_str dest' = is_str dest" "get_attr dest' a = get_attr dest a"
    "k \<notin> set XSD_TYPE_KEYS \<Longrightarrow> get_prop dest' k = get_prop dest k"
    "k \<in> set XSD_TYPE_KEYS \<Longrightarrow>
       arr (get_prop dest' k) = arr (get_prop dest k) @ arr (get_prop src k)"
proof -
  have d: "distinct XSD_TYPE_KEYS" by (simp add: XSD_TYPE_KEYS_def)
  note p = mergeSchema_keys_props [OF assms [unfolded mergeSchema_def] d]
  show "is_str dest' = is_str dest" using p by blast
  show "get_attr dest' a = get_attr dest a" using p by blast
  show "k \<notin> set XSD_TYPE_KEYS \<Longrightarrow> get_prop dest' k = get_prop dest k" using p by blast
  show "k \<in> set XSD_TYPE_KEYS \<Longrightarrow>
       arr (get_prop dest' k) = arr (get_prop dest k) @ arr (get_prop src k)" using p by blast
qed

lemma mergeWsdlDefs_props:
  assumes "mergeWsdlDefs dest src = Inr dest'"
  shows "is_str dest' = is_str dest" "get_attr dest' a = get_attr dest a"
    "k \<notin> set WSDL_DEF_KEYS \<Longrightarrow> get_prop dest' k = get_prop dest k"
proof -
  have d: "distinct WSDL_DEF_KEYS" by (simp add: WSDL_DEF_KEYS_def)
  note p = mergeWsdlDefs_keys_props [OF assms [unfolded mergeWsdlDefs_def] d]
  show "is_str dest' = is_str dest" using p by blast
  show "get_attr dest' a = get_attr dest a" using p by blast
  show "k \<notin> set WSDL_DEF_KEYS \<Longrightarrow> get_prop dest' k = get_prop dest k" using p by blast
qed

lemma xsd_loop_keeps:
  "xsd_loop fuel env imps schema baseDir visited = Some (Inr (s', vis')) \<Longrightarrow>
   is_str s' = is_str schema \<and> (\<forall>a. get_attr s' a = get_attr schema a)
   \<and> (\<forall>k. k \<notin> set XSD_TYPE_KEYS \<longrightarrow> get_prop s' k = get_prop schema k)"
proof (induction rule: xsd_loop_run_induct)
  case (Fetch n env imp imps schema baseDir visited s' vis' loc xsdXml importedSchema merged vis1 schema1)
  show ?case using Fetch.IH(2) mergeSchema_props(1,2,3) [OF Fetch.hyps(7)] by simp
qed simp_all

lemma xsd_loop_imports_visited:
  "xsd_loop fuel env imps schema baseDir visited = Some (Inr (s', vis')) \<Longrightarrow>
   \<forall>imp \<in> set imps. \<forall>loc. get_attr imp ''@_schemaLocation'' = Some loc \<longrightarrow> loc \<noteq> [] \<longrightarrow>
      absoluteLocation env loc baseDir \<in> set vis'"
proof (induction rule: xsd_loop_run_induct)
  case (Nil fuel env schema baseDir visited)
  show ?case by simp
next
  case (Skip fuel env imp imps schema baseDir visited s' vis')
  have "set visited \<subseteq> set vis'"
    using xsd_loop_prefix [OF Skip.hyps(2)] by (auto simp: prefix_def)
  then show ?case using Skip.hyps(1) Skip.IH by auto
next
  case (Fetch n env imp imps schema baseDir visited s' vis' loc xsdXml importedSchema merged vis1 schema1)
  have "absoluteLocation env loc baseDir \<in> set vis1"
    using xsd_loop_prefix [OF Fetch.hyps(6)] by (auto simp: prefix_def)
  moreover have "set vis1 \<subseteq> set vis'"
    using xsd_loop_prefix [OF Fetch.hyps(8)] by (auto simp: prefix_def)
  ultimately show ?case using Fetch.hyps(1) Fetch.IH(2) by auto
qed

lemma wsdl_loop_keeps_aux:
  "wsdl_loop fuel env imps defs baseDir visited = Some (Inr (d', vis')) \<Longrightarrow>
   is_str d' = is_str defs \<and> (\<forall>a. get_attr d' a = get_attr defs a)
   \<and> (\<forall>k. k \<notin> set WSDL_DEF_KEYS \<longrightarrow> get_prop d' k = get_prop defs k)"
proof -
  have "\<forall>raw' vis'. resolveWsdl fuel' env' xml baseDir' visited' = Some (Inr (raw', vis'))
           \<longrightarrow> True"
    and "\<forall>d' vis'. wsdl_loop fuel env imps defs baseDir visited = Some (Inr (d', vis'))
           \<longrightarrow> is_str d' = is_str defs \<and> (\<forall>a. get_attr d' a = get_attr defs a)
               \<and> (\<forall>k. k \<notin> set WSDL_DEF_KEYS \<longrightarrow> get_prop d' k = get_prop defs k)"
  proof (induction rule: wsdl_run_induct_aux
           [where P = "\<lambda>fuel env xml baseDir visited raw' vis'. True"
              and Q = "\<lambda>fuel env imps defs baseDir visited d' vis'.
                          is_str d' = is_str defs \<and> (\<forall>a. get_attr d' a = get_attr defs a)
                          \<and> (\<forall>k. k \<notin> set WSDL_DEF_KEYS \<longrightarrow> get_prop d' k = get_prop defs k)"])
    case (4 n env imp imps defs baseDir visited d' vis' loc importedXml importedRaw vis1 importedDefs defs1)
    show ?case using 4(10) mergeWsdlDefs_props [OF 4(8)] by simp
  qed simp_all
  then show "wsdl_loop fuel env imps defs baseDir visited = Some (Inr (d', vis')) \<Longrightarrow>
   is_str d' = is_str defs \<and> (\<forall>a. get_attr d' a = get_attr defs a)
   \<and> (\<forall>k. k \<notin> set WSDL_DEF_KEYS \<longrightarrow> get_prop d' k = get_prop defs k)"
    by blast
qed

lemma wsdl_loop_keeps:
  assumes "wsdl_loop fuel env imps defs baseDir visited = Some (Inr (d', vis'))"
  shows "is_str d' = is_str defs" "get_attr d' a = get_attr defs a"
    "k \<notin> set WSDL_DEF_KEYS \<Longrightarrow> get_prop d' k = get_prop defs k"
  using wsdl_loop_keeps_aux [OF assms] by blast+

lemma wsdl_loop_imports_visited:
  "wsdl_loop fuel env imps defs baseDir visited = Some (Inr (d', vis')) \<Longrightarrow>
   \<forall>imp \<in> set imps. \<forall>loc. get_attr imp ''@_location'' = Some loc \<longrightarrow> loc \<noteq> [] \<longrightarrow>
      absoluteLocation env loc baseDir \<in> set vis'"
proof -
  have "\<forall>raw' vis'. resolveWsdl fuel' env' xml baseDir' visited' = Some (Inr (raw', vis'))
           \<longrightarrow> True"
    and "\<forall>d' vis'. wsdl_loop fuel env imps defs baseDir visited = Some (Inr (d', vis'))
           \<longrightarrow> (\<forall>imp \<in> set imps. \<forall>loc. get_attr imp ''@_location'' = Some loc \<longrightarrow> loc \<noteq> [] \<longrightarrow>
                   absoluteLocation env loc baseDir \<in> set vis')"
  proof (induction rule: wsdl_run_induct_aux
           [where P = "\<lambda>fuel env xml baseDir visited raw' vis'. True"
              and Q = "\<lambda>fuel env imps defs baseDir visited d' vis'.
                         \<forall>imp \<in> set imps. \<forall>loc. get_attr imp ''@_location'' = Some loc \<longrightarrow>
                            loc \<noteq> [] \<longrightarrow> absoluteLocation env loc baseDir \<in> set vis'"])
    case (3 fuel env imp imps defs baseDir visited d' vis')
    have "set visited \<subseteq> set vis'"
      using wsdl_prefix(2) [THEN mp, OF 3(2)] by (auto simp: prefix_def)
    then show ?case using 3(1) 3(3) by auto
  next
    case (4 n env imp imps defs baseDir visited d' vis' loc importedXml importedRaw vis1 importedDefs defs1)
    have "prefix (visited @ [absoluteLocation env loc baseDir]) vis1"
      by (rule wsdl_prefix(1) [THEN mp, OF 4(5)])
    then have "absoluteLocation env loc baseDir \<in> set vis1"
      by (auto simp: prefix_def)
    moreover have "set vis1 \<subseteq> set vis'"
      using wsdl_prefix(2) [THEN mp, OF 4(9)] by (auto simp: prefix_def)
    ultimately show ?case using 4(1) 4(10) by auto
  qed simp_all
  then show "wsdl_loop fuel env imps defs baseDir visited = Some (Inr (d', vis')) \<Longrightarrow>
   \<forall>imp \<in> set imps. \<forall>loc. get_attr imp ''@_location'' = Some loc \<longrightarrow> loc \<noteq> [] \<longrightarrow>
      absoluteLocation env loc baseDir \<in> set vis'"
    by blast
qed

lemma parseWsdl_not_str: "parseWsdl env xml = Inr raw \<Longrightarrow> \<not> is_str raw"
  by (auto simp: parseWsdl_def split: option.splits if_splits jv.splits)

lemma WSDL_keys_simps [simp]:
  "''import'' \<notin> set WSDL_DEF_KEYS" "''types'' \<notin> set WSDL_DEF_KEYS"
  "''documentation'' \<notin> set WSDL_DEF_KEYS" "''annotation'' \<notin> set WSDL_DEF_KEYS"
  by (simp_all add: WSDL_DEF_KEYS_def)

lemma XSD_keys_simps [simp]:
  "''import'' \<notin> set XSD_TYPE_KEYS" "''include'' \<notin> set XSD_TYPE_KEYS"
  by (simp_all add: XSD_TYPE_KEYS_def)

lemma schema_of_cong:
  "get_prop d' ''types'' = get_prop d ''types'' \<Longrightarrow> schema_of d' = schema_of d"
  by (simp add: schema_of_def)

text \<open>The shape of the tree that a successful resolution returns.\<close>

lemma resolveWsdl_result:
  assumes "resolveWsdl fuel env xml baseDir visited = Some (Inr (raw', vis'))"
  obtains raw defs defs1 schema schema' vis1 defs'
  where "parseWsdl env xml = Inr raw" "get_prop raw ''definitions'' = Some defs"
    "ensureSchema defs = Inr (defs1, schema)"
    "xsd_loop fuel env (xsd_imports schema) schema baseDir visited = Some (Inr (schema', vis1))"
    "wsdl_loop fuel env (arr (get_prop defs ''import'')) (put_schema defs1 schema') baseDir vis1
       = Some (Inr (defs', vis'))"
    "get_prop raw' ''definitions'' = Some defs'"
    "schema_of defs' = schema'"
    "get_prop defs' ''import'' = get_prop defs ''import''"
    "\<not> is_str defs'"
    "\<forall>a. get_attr defs' a = get_attr defs a"
    "\<forall>k. k \<notin> set WSDL_DEF_KEYS \<longrightarrow> k \<noteq> ''types'' \<longrightarrow> get_prop defs' k = get_prop defs k"
proof -
  from assms obtain raw defs defs1 schema schema' vis1 defs'
    where r: "parseWsdl env xml = Inr raw" "get_prop raw ''definitions'' = Some defs"
      "ensureSchema defs = Inr (defs1, schema)"
      "xsd_loop fuel env (xsd_imports schema) schema baseDir visited = Some (Inr (schema', vis1))"
      "wsdl_loop fuel env (arr (get_prop (put_schema defs1 schema') ''import''))
         (put_schema defs1 schema') baseDir vis1 = Some (Inr (defs', vis'))"
      "raw' = upd_prop raw ''definitions'' defs'"
    by (rule resolveWsdlE)
  note e = ensureSchema_props [OF r(3)]
  from e(3) obtain tys1 where t: "get_prop defs1 ''types'' = Some tys1" "\<not> is_str tys1"
    by (elim exE conjE)
  note p = put_schema_props [OF e(2) t, of schema']
  have imp: "get_prop (put_schema defs1 schema') ''import'' = get_prop defs ''import''"
    using p(3) e(4) by simp
  note k = wsdl_loop_keeps [OF r(5)]
  have 1: "get_prop raw' ''definitions'' = Some defs'"
    using r(6) parseWsdl_not_str [OF r(1)] by (simp add: get_prop_upd_prop)
  have "get_prop defs' ''types'' = get_prop (put_schema defs1 schema') ''types''"
    using k(3) [of "''types''"] by simp
  then have "schema_of defs' = schema_of (put_schema defs1 schema')"
    by (rule schema_of_cong)
  then have 2: "schema_of defs' = schema'" using p(2) by simp
  have 3: "get_prop defs' ''import'' = get_prop defs ''import''"
    using k(3) [of "''import''"] imp by simp
  have 4: "\<not> is_str defs'" using k(1) p(1) by simp
  have 5: "\<forall>a. get_attr defs' a = get_attr defs a" using k(2) p(4) e(5) by simp
  have 6: "\<forall>k. k \<notin> set WSDL_DEF_KEYS \<longrightarrow> k \<noteq> ''types'' \<longrightarrow> get_prop defs' k = get_prop defs k"
    using k(3) p(3) e(4) by simp
  show ?thesis
    by (rule that [OF r(1) r(2) r(3) r(4) r(5) [unfolded imp] 1 2 3 4 5 6])
qed

section \<open>Import directives after a resolution\<close>

text \<open>
  Claim C1 as stated fails: the resolver merges what an import refers to and never
  removes the import node, so the schema import with its schemaLocation, and the
  document import with its location, are still in the returned tree.
\<close>

theorem import_nodes_remain_counterexample:
  "(\<exists>raw. loadWsdl 3 cyc_env ''ROOTX'' ''/d'' = Some (Inr raw))
   \<and> located_directives (tree_of (loadWsdl 3 cyc_env ''ROOTX'' ''/d''))
       = [JObj [(''@_schemaLocation'', ''x.xsd'')] []]
   \<and> (\<exists>raw. loadWsdl 3 cyc_env ''SELF'' ''/d'' = Some (Inr raw))
   \<and> located_directives (tree_of (loadWsdl 3 cyc_env ''SELF'' ''/d''))
       = [JObj [(''@_location'', ''self.wsdl'')] []]"
proof -
  have x: "loadWsdl 3 cyc_env ''ROOTX'' ''/d'' =
     Some (Inr (JObj [] [(''definitions'',
               JObj [(''@_name'', ''RootX'')]
                    [(''types'', JObj [] [(''schema'',
                        JObj [] [(''import'',
                                  JArr [JObj [(''@_schemaLocation'', ''x.xsd'')] []] []),
                                 (''complexType'', JArr [JObj [(''@_name'', ''X'')] []] []),
                                 (''simpleType'', JArr [JObj [(''@_name'', ''Y'')] []] [])])])])]))"
    by (simp add: loader_defs cyc_env_def root_x_doc_def x_doc_def y_doc_def)
  have s: "loadWsdl 3 cyc_env ''SELF'' ''/d'' =
     Some (Inr (JObj []
         [(''definitions'',
           JObj [(''@_name'', ''Self'')]
            [(''import'', JArr [JObj [(''@_location'', ''self.wsdl'')] []] []),
             (''message'', JArr [JObj [(''@_name'', ''M'')] []] []),
             (''types'', JObj [] [(''schema'', JObj [] [])])])]))"
    by (simp add: loader_defs cyc_env_def self_doc_def)
  show ?thesis
    unfolding x s
    by (simp add: located_directives_def tree_of_def schema_of_def xsd_imports_def has_location_def)
qed

text \<open>
  Claim C1, amended. After a successful resolution the import and include entries of the
  schema node and the import entries of the definitions node are in the returned tree as
  they were parsed, and each of them that carries a location is resolved: its absolute
  location is in the visited set, and every location of the visited set was fetched and
  parsed.
\<close>

theorem imports_resolved_nodes_kept:
  "resolveWsdl fuel env xml baseDir [] = Some (Inr (raw', vis')) \<longrightarrow>
     (\<exists>raw defs defs'.
        parseWsdl env xml = Inr raw \<and> get_prop raw ''definitions'' = Some defs
        \<and> get_prop raw' ''definitions'' = Some defs'
        \<and> get_prop defs' ''import'' = get_prop defs ''import''
        \<and> xsd_imports (schema_of defs') = xsd_imports (schema_of defs)
        \<and> (\<forall>imp \<in> set (xsd_imports (schema_of defs')). \<forall>loc.
              get_attr imp ''@_schemaLocation'' = Some loc \<longrightarrow> loc \<noteq> [] \<longrightarrow>
              absoluteLocation env loc baseDir \<in> set vis')
        \<and> (\<forall>imp \<in> set (arr (get_prop defs' ''import'')). \<forall>loc.
              get_attr imp ''@_location'' = Some loc \<longrightarrow> loc \<noteq> [] \<longrightarrow>
              absoluteLocation env loc baseDir \<in> set vis')
        \<and> (\<forall>l \<in> set vis'. loadable env l))"
proof
  assume run: "resolveWsdl fuel env xml baseDir [] = Some (Inr (raw', vis'))"
  from run obtain raw defs defs1 schema schema' vis1 defs'
    where r: "parseWsdl env xml = Inr raw" "get_prop raw ''definitions'' = Some defs"
      "ensureSchema defs = Inr (defs1, schema)"
      "xsd_loop fuel env (xsd_imports schema) schema baseDir [] = Some (Inr (schema', vis1))"
      "wsdl_loop fuel env (arr (get_prop defs ''import'')) (put_schema defs1 schema') baseDir vis1
         = Some (Inr (defs', vis'))"
      "get_prop raw' ''definitions'' = Some defs'"
      "schema_of defs' = schema'"
      "get_prop defs' ''import'' = get_prop defs ''import''"
    by (rule resolveWsdl_result)
  have keep: "xsd_imports schema' = xsd_imports schema"
    using xsd_loop_keeps [OF r(4)] by (simp add: xsd_imports_def)
  have same: "xsd_imports (schema_of defs') = xsd_imports (schema_of defs)"
    using keep r(7) ensureSchema_props(6) [OF r(3)] by simp
  have sub: "set vis1 \<subseteq> set vis'"
    using wsdl_prefix(2) [THEN mp, OF r(5)] by (auto simp: prefix_def)
  have xs: "\<forall>imp \<in> set (xsd_imports (schema_of defs')). \<forall>loc.
              get_attr imp ''@_schemaLocation'' = Some loc \<longrightarrow> loc \<noteq> [] \<longrightarrow>
              absoluteLocation env loc baseDir \<in> set vis'"
    using xsd_loop_imports_visited [OF r(4)] sub keep r(7) by auto
  have ws: "\<forall>imp \<in> set (arr (get_prop defs' ''import'')). \<forall>loc.
              get_attr imp ''@_location'' = Some loc \<longrightarrow> loc \<noteq> [] \<longrightarrow>
              absoluteLocation env loc baseDir \<in> set vis'"
    using wsdl_loop_imports_visited [OF r(5)] r(8) by simp
  have ld: "\<forall>l \<in> set vis'. loadable env l"
    using wsdl_loadable(1) [THEN mp, OF run] by simp
  show "\<exists>raw defs defs'.
        parseWsdl env xml = Inr raw \<and> get_prop raw ''definitions'' = Some defs
        \<and> get_prop raw' ''definitions'' = Some defs'
        \<and> get_prop defs' ''import'' = get_prop defs ''import''
        \<and> xsd_imports (schema_of defs') = xsd_imports (schema_of defs)
        \<and> (\<forall>imp \<in> set (xsd_imports (schema_of defs')). \<forall>loc.
              get_attr imp ''@_schemaLocation'' = Some loc \<longrightarrow> loc \<noteq> [] \<longrightarrow>
              absoluteLocation env loc baseDir \<in> set vis')
        \<and> (\<forall>imp \<in> set (arr (get_prop defs' ''import'')). \<forall>loc.
              get_attr imp ''@_location'' = Some loc \<longrightarrow> loc \<noteq> [] \<longrightarrow>
              absoluteLocation env loc baseDir \<in> set vis')
        \<and> (\<forall>l \<in> set vis'. loadable env l)"
    by (intro exI conjI) (rule r(1), rule r(2), rule r(6), rule r(8), rule same, rule xs,
                          rule ws, rule ld)
qed


theorem imports_resolved_nodes_kept_witness:
  "resolveWsdl 3 cyc_env ''ROOTX'' ''/d'' []
     = Some (Inr (tree_of (loadWsdl 3 cyc_env ''ROOTX'' ''/d''), [''/d/x.xsd'', ''/d/y.xsd'']))
   \<and> (\<exists>raw defs defs'.
        parseWsdl cyc_env ''ROOTX'' = Inr raw \<and> get_prop raw ''definitions'' = Some defs
        \<and> get_prop (tree_of (loadWsdl 3 cyc_env ''ROOTX'' ''/d'')) ''definitions'' = Some defs'
        \<and> get_prop defs' ''import'' = get_prop defs ''import''
        \<and> xsd_imports (schema_of defs') = xsd_imports (schema_of defs)
        \<and> (\<forall>imp \<in> set (xsd_imports (schema_of defs')). \<forall>loc.
              get_attr imp ''@_schemaLocation'' = Some loc \<longrightarrow> loc \<noteq> [] \<longrightarrow>
              absoluteLocation cyc_env loc ''/d'' \<in> set [''/d/x.xsd'', ''/d/y.xsd''])
        \<and> (\<forall>imp \<in> set (arr (get_prop defs' ''import'')). \<forall>loc.
              get_attr imp ''@_location'' = Some loc \<longrightarrow> loc \<noteq> [] \<longrightarrow>
              absoluteLocation cyc_env loc ''/d'' \<in> set [''/d/x.xsd'', ''/d/y.xsd''])
        \<and> (\<forall>l \<in> set [''/d/x.xsd'', ''/d/y.xsd'']. loadable cyc_env l))"
proof -
  have run: "resolveWsdl 3 cyc_env ''ROOTX'' ''/d'' []
     = Some (Inr (tree_of (loadWsdl 3 cyc_env ''ROOTX'' ''/d''), [''/d/x.xsd'', ''/d/y.xsd'']))"
    by (simp add: tree_of_def loader_defs cyc_env_def root_x_doc_def x_doc_def y_doc_def)
  show ?thesis
    by (rule conjI [OF run imports_resolved_nodes_kept [THEN mp, OF run]])
qed

section \<open>Documents without imports\<close>

text \<open>
  Claim C5 at a document without any import whose types element holds text only: the
  direct parse is normalised to a model, while \<open>loadWsdl\<close> is rejected, because
  \<open>ensureSchema\<close> stores the schema property on the string.
\<close>

theorem loadWsdl_text_only_types:
  "parseWsdl odd_env ''ODD'' = Inr odd_doc
   \<and> located_directives odd_doc = []
   \<and> buildModel odd_doc = Inr (empty_model ''Odd'')
   \<and> loadWsdl 3 odd_env ''ODD'' ''/d''
       = Some (Inl (TypeError (''Cannot create property '' @ [CHR 0x27] @ ''schema'' @ [CHR 0x27]
                               @ '' on string '' @ [CHR 0x27] @ ''abc'' @ [CHR 0x27])))"
proof -
  have p: "parseWsdl odd_env ''ODD'' = Inr odd_doc"
    by (simp add: parseWsdl_def odd_env_def odd_doc_def)
  have d: "located_directives odd_doc = []"
    by (simp add: located_directives_def odd_doc_def schema_of_def xsd_imports_def)
  have b: "buildModel odd_doc = Inr (empty_model ''Odd'')"
    by (simp add: buildModel_def odd_doc_def empty_model_def attr_or_def getDoc_def text_opt_def
          schema_of_def extractTypes_def element_types_def complex_types_def simple_types_def
          extractMessages_def extractOperations_def extractBindings_def extractEndpoints_def)
  have l: "loadWsdl 3 odd_env ''ODD'' ''/d''
       = Some (Inl (TypeError (''Cannot create property '' @ [CHR 0x27] @ ''schema'' @ [CHR 0x27]
                               @ '' on string '' @ [CHR 0x27] @ ''abc'' @ [CHR 0x27])))"
    by (simp add: loader_defs odd_env_def odd_doc_def)
  show ?thesis by (intro conjI) (rule p, rule d, rule b, rule l)
qed

lemma getDoc_cong:
  assumes "\<not> is_str d'" "\<not> is_str d"
    "get_prop d' ''documentation'' = get_prop d ''documentation''"
    "get_prop d' ''annotation'' = get_prop d ''annotation''"
  shows "getDoc d' = getDoc d"
  using assms by (simp add: getDoc_def truthy_not_str Let_def)

lemma buildModel_cong:
  assumes "get_prop raw' ''definitions'' = Some defs'" "get_prop raw ''definitions'' = Some defs"
    "\<not> is_str defs'" "\<not> is_str defs"
    "\<forall>a. get_attr defs' a = get_attr defs a"
    "\<forall>k. k \<notin> set WSDL_DEF_KEYS \<longrightarrow> k \<noteq> ''types'' \<longrightarrow> get_prop defs' k = get_prop defs k"
    "\<forall>k \<in> set WSDL_DEF_KEYS. arr (get_prop defs' k) = arr (get_prop defs k)"
    "extractTypes (schema_of defs') = extractTypes (schema_of defs)"
  shows "buildModel raw' = buildModel raw"
proof -
  have doc: "getDoc defs' = getDoc defs"
    using assms(3,4,6) by (intro getDoc_cong) simp_all
  have keys: "arr (get_prop defs' ''message'') = arr (get_prop defs ''message'')"
    "arr (get_prop defs' ''portType'') = arr (get_prop defs ''portType'')"
    "arr (get_prop defs' ''binding'') = arr (get_prop defs ''binding'')"
    "arr (get_prop defs' ''service'') = arr (get_prop defs ''service'')"
    using assms(7) by (simp_all add: WSDL_DEF_KEYS_def)
  show ?thesis
    using assms(1,2,5,8) doc keys by (simp add: buildModel_def attr_or_def)
qed

text \<open>
  A document without located imports, whose definitions node is an object and whose
  types node is an object or empty: import resolution succeeds and changes nothing that
  the normaliser reads.
\<close>

lemma loadWsdl_without_imports:
  assumes parsed: "parseWsdl env xml = Inr raw" "get_prop raw ''definitions'' = Some defs"
    and shape: "\<not> is_str defs"
      "\<forall>t. get_prop defs ''types'' = Some t \<longrightarrow> \<not> truthy (Some t) \<or> \<not> is_str t"
    and none: "located_directives raw = []"
  shows "\<exists>raw'. loadWsdl fuel env xml baseDir = Some (Inr raw') \<and> buildModel raw' = buildModel raw"
proof -
  obtain defs1 schema where ens: "ensureSchema defs = Inr (defs1, schema)"
    using ensureSchema_ok [OF shape] by blast
  note e = ensureSchema_props [OF ens]
  from e(3) obtain tys1 where t: "get_prop defs1 ''types'' = Some tys1" "\<not> is_str tys1"
      "get_prop tys1 ''schema'' = Some schema"
    by (elim exE conjE)
  have nx: "\<forall>imp \<in> set (xsd_imports schema). \<forall>loc.
              get_attr imp ''@_schemaLocation'' = Some loc \<longrightarrow>
              loc = [] \<or> absoluteLocation env loc baseDir \<in> set []"
    using none parsed(2) e(6)
    by (auto simp: located_directives_def filter_empty_conv has_location_def)
  have nw: "\<forall>imp \<in> set (arr (get_prop defs1 ''import'')). \<forall>loc.
              get_attr imp ''@_location'' = Some loc \<longrightarrow>
              loc = [] \<or> absoluteLocation env loc baseDir \<in> set []"
    using none parsed(2) e(4)
    by (auto simp: located_directives_def filter_empty_conv has_location_def)
  have x: "xsd_loop fuel env (xsd_imports schema) schema baseDir [] = Some (Inr (schema, []))"
    using nx by (rule xsd_loop_nothing_to_do)
  have same: "put_schema defs1 schema = defs1"
    using t(1,3) by (rule put_schema_same)
  have w: "wsdl_loop fuel env (arr (get_prop defs1 ''import'')) defs1 baseDir []
             = Some (Inr (defs1, []))"
    using nw by (rule wsdl_loop_nothing_to_do)
  have run: "loadWsdl fuel env xml baseDir = Some (Inr (upd_prop raw ''definitions'' defs1))"
    using parsed ens x w by (simp add: loadWsdl_def resolveWsdl.simps same)
  have d1: "get_prop (upd_prop raw ''definitions'' defs1) ''definitions'' = Some defs1"
    using parseWsdl_not_str [OF parsed(1)] by (simp add: get_prop_upd_prop)
  have ty: "extractTypes (schema_of defs1) = extractTypes (schema_of defs)"
    using e(7) t by (simp add: schema_of_def)
  have "buildModel (upd_prop raw ''definitions'' defs1) = buildModel raw"
    using d1 parsed(2) e(2) e(1) e(5) _ _ ty
  proof (rule buildModel_cong)
    show "\<forall>k. k \<notin> set WSDL_DEF_KEYS \<longrightarrow> k \<noteq> ''types'' \<longrightarrow> get_prop defs1 k = get_prop defs k"
      using e(4) by simp
    show "\<forall>k \<in> set WSDL_DEF_KEYS. arr (get_prop defs1 k) = arr (get_prop defs k)"
      using e(4) by (auto simp: WSDL_DEF_KEYS_def)
  qed
  then show ?thesis using run by simp
qed

section \<open>A schema reached along two paths\<close>




lemma element_types_append [simp]:
  "element_types (xs @ ys) = element_types xs @ element_types ys"
  by (simp add: element_types_def)

lemma complex_types_append [simp]:
  "complex_types (xs @ ys) = complex_types xs @ complex_types ys"
  by (simp add: complex_types_def)

lemma simple_types_append [simp]:
  "simple_types (xs @ ys) = simple_types xs @ simple_types ys"
  by (simp add: simple_types_def)

lemma count_named_append [simp]:
  "count_named n (xs @ ys) = count_named n xs + count_named n ys"
  by (simp add: count_named_def)

lemma XSD_keys_members [simp]:
  "''element'' \<in> set XSD_TYPE_KEYS" "''complexType'' \<in> set XSD_TYPE_KEYS"
  "''simpleType'' \<in> set XSD_TYPE_KEYS"
  by (simp_all add: XSD_TYPE_KEYS_def)









section \<open>The import graph\<close>

lemma import_targets_iff:
  "l \<in> set (import_targets env key imps baseDir) \<longleftrightarrow>
     (\<exists>imp \<in> set imps. \<exists>loc. get_attr imp key = Some loc \<and> loc \<noteq> []
                            \<and> l = absoluteLocation env loc baseDir)"
proof (induction imps)
  case Nil
  show ?case by (simp add: import_targets_def)
next
  case (Cons a imps)
  have "l \<in> set (import_targets env key (a # imps) baseDir) \<longleftrightarrow>
          (\<exists>loc. get_attr a key = Some loc \<and> loc \<noteq> [] \<and> l = absoluteLocation env loc baseDir)
          \<or> l \<in> set (import_targets env key imps baseDir)"
  proof (cases "get_attr a key")
    case None
    then show ?thesis by (simp add: import_targets_def)
  next
    case (Some loc)
    then show ?thesis by (cases "loc = []") (auto simp: import_targets_def)
  qed
  then show ?case using Cons.IH by auto
qed








section \<open>Termination and merging once\<close>











section \<open>Names after document imports\<close>

text \<open>
  A resolution keeps the names under a key distinct when they are distinct in the root
  document and in the document found at each location that the run has visited.
\<close>

lemma names_distinct_resolution:
  assumes key: "key \<in> set WSDL_DEF_KEYS"
  shows "\<forall>raw' vis'. resolveWsdl fuel env xml baseDir visited = Some (Inr (raw', vis')) \<longrightarrow>
     (\<forall>raw defs defs'. parseWsdl env xml = Inr raw \<longrightarrow> get_prop raw ''definitions'' = Some defs \<longrightarrow>
        get_prop raw' ''definitions'' = Some defs' \<longrightarrow>
        distinct (map name_of (arr (get_prop defs key))) \<longrightarrow>
        (\<forall>l \<in> set vis'. distinct (map name_of (definitions_at env key l))) \<longrightarrow>
        distinct (map name_of (arr (get_prop defs' key))))"
    and "\<forall>d' vis'. wsdl_loop fuel' env' imps defs baseDir' visited' = Some (Inr (d', vis')) \<longrightarrow>
        distinct (map name_of (arr (get_prop defs key))) \<longrightarrow>
        (\<forall>l \<in> set vis'. distinct (map name_of (definitions_at env' key l))) \<longrightarrow>
        distinct (map name_of (arr (get_prop d' key)))"
proof (induction rule: wsdl_run_induct_aux
         [where P = "\<lambda>fuel env xml baseDir visited raw' vis'.
             \<forall>raw defs defs'. parseWsdl env xml = Inr raw \<longrightarrow> get_prop raw ''definitions'' = Some defs \<longrightarrow>
               get_prop raw' ''definitions'' = Some defs' \<longrightarrow>
               distinct (map name_of (arr (get_prop defs key))) \<longrightarrow>
               (\<forall>l \<in> set vis'. distinct (map name_of (definitions_at env key l))) \<longrightarrow>
               distinct (map name_of (arr (get_prop defs' key)))"
            and Q = "\<lambda>fuel env imps defs baseDir visited d' vis'.
               distinct (map name_of (arr (get_prop defs key))) \<longrightarrow>
               (\<forall>l \<in> set vis'. distinct (map name_of (definitions_at env key l))) \<longrightarrow>
               distinct (map name_of (arr (get_prop d' key)))"])
  case (1 fuel env xml baseDir visited raw defs defs1 schema schema' vis1 defs' vis')
  show ?case
  proof (intro allI impI)
    fix raw0 defs0 d
    assume p0: "parseWsdl env xml = Inr raw0" and g0: "get_prop raw0 ''definitions'' = Some defs0"
      and d: "get_prop (upd_prop raw ''definitions'' defs') ''definitions'' = Some d"
      and n0: "distinct (map name_of (arr (get_prop defs0 key)))"
      and all: "\<forall>l \<in> set vis'. distinct (map name_of (definitions_at env key l))"
    have same: "raw0 = raw" "defs0 = defs" using p0 g0 1(1) 1(2) by simp_all
    have d': "d = defs'"
      using d parseWsdl_not_str [OF 1(1)] by (simp add: get_prop_upd_prop)
    note e = ensureSchema_props [OF 1(3)]
    from e(3) obtain tys1 where t: "get_prop defs1 ''types'' = Some tys1" "\<not> is_str tys1"
      by (elim exE conjE)
    note p = put_schema_props [OF e(2) t, of schema']
    have kt: "key \<noteq> ''types''" using key by (auto simp: WSDL_DEF_KEYS_def)
    have eq: "get_prop (put_schema defs1 schema') key = get_prop defs key"
      using p(3) e(4) kt by simp
    have "distinct (map name_of (arr (get_prop defs' key)))"
      using 1(6) n0 all by (simp add: eq same)
    then show "distinct (map name_of (arr (get_prop d key)))" by (simp add: d')
  qed
next
  case (2 fuel env defs baseDir visited)
  show ?case by simp
next
  case (3 fuel env imp imps defs baseDir visited d' vis')
  then show ?case by simp
next
  case (4 n env imp imps defs baseDir visited d' vis' loc importedXml importedRaw vis1 importedDefs defs1)
  define absLoc where "absLoc = absoluteLocation env loc baseDir"
  show ?case
  proof (intro impI)
    assume nd: "distinct (map name_of (arr (get_prop defs key)))"
      and all: "\<forall>l \<in> set vis'. distinct (map name_of (definitions_at env key l))"
    from 4(5) obtain raw0 defs0 where
      r0: "parseWsdl env importedXml = Inr raw0" "get_prop raw0 ''definitions'' = Some defs0"
      by (rule resolveWsdlE)
    have own: "definitions_at env key absLoc = arr (get_prop defs0 key)"
      using 4(4) r0 by (simp add: definitions_at_def document_at_def absLoc_def)
    have in1: "absLoc \<in> set vis1"
      using wsdl_prefix(1) [THEN mp, OF 4(5)] by (auto simp: prefix_def absLoc_def)
    have sub: "set vis1 \<subseteq> set vis'"
      using wsdl_prefix(2) [THEN mp, OF 4(9)] by (auto simp: prefix_def)
    have "distinct (map name_of (definitions_at env key absLoc))"
      using all in1 sub by blast
    then have n0: "distinct (map name_of (arr (get_prop defs0 key)))"
      by (simp add: own)
    have all1: "\<forall>l \<in> set vis1. distinct (map name_of (definitions_at env key l))"
      using all sub by auto
    have ni: "distinct (map name_of (arr (get_prop importedDefs key)))"
      using 4(6) r0 4(7) n0 all1 by blast
    have d: "distinct WSDL_DEF_KEYS" by (simp add: WSDL_DEF_KEYS_def)
    have m: "arr (get_prop defs1 key)
          = arr (get_prop defs key) @ newItems_of (arr (get_prop defs key)) (arr (get_prop importedDefs key))"
      using mergeWsdlDefs_keys_props [OF 4(8) [unfolded mergeWsdlDefs_def] d] key by blast
    have n1: "distinct (map name_of (arr (get_prop defs1 key)))"
      unfolding m using nd ni by (rule distinct_newItems)
    show "distinct (map name_of (arr (get_prop d' key)))"
      using 4(10) n1 all by blast
  qed
qed

text \<open>
  Claim C3 as stated fails: the merge compares an incoming item with the items of the
  destination only, so two items of one name inside one imported document both arrive.
\<close>

theorem import_merge_duplicate_counterexample:
  "merged_messages (loadWsdl 3 dup_env ''ROOTDUP'' ''/d'') = [msg_A_first, msg_A_second]
   \<and> map name_of [msg_A_first, msg_A_second] = [Some ''A'', Some ''A'']
   \<and> \<not> distinct (map name_of (merged_messages (loadWsdl 3 dup_env ''ROOTDUP'' ''/d'')))"
proof -
  have m: "merged_messages (loadWsdl 3 dup_env ''ROOTDUP'' ''/d'') = [msg_A_first, msg_A_second]"
    by (simp add: merged_messages_def loader_defs dup_env_def root_dup_doc_def dup_doc_def
          msg_A_first_def msg_A_second_def)
  have n: "name_of msg_A_first = Some ''A''" "name_of msg_A_second = Some ''A''"
    by (simp_all add: name_of_def msg_A_first_def msg_A_second_def)
  show ?thesis by (simp add: m n)
qed

text \<open>
  Claim C3, amended. For each of the message, portType, binding and service collections,
  \<open>mergeWsdlDefs\<close> keeps the items of the destination, first and in their order, and
  appends the incoming items whose name the destination does not hold yet; an incoming
  item whose name is present is dropped, so the definition seen first is the one kept.
  When the names of the destination and the names of the incoming collection are each
  pairwise distinct, so are the names after the merge, and the merge succeeds on every
  destination that is an object. Hence, for each collection: when its names are pairwise
  distinct in the root document and in the document found at each location that the
  resolution has visited, they are pairwise distinct in the merged definitions that the
  resolution returns.
\<close>

theorem mergeWsdlDefs_first_seen_wins:
  "(\<not> is_str dest \<longrightarrow> (\<exists>dest'. mergeWsdlDefs dest src = Inr dest'))
   \<and> (\<forall>dest'. mergeWsdlDefs dest src = Inr dest' \<longrightarrow>
        (\<forall>key \<in> set WSDL_DEF_KEYS.
           arr (get_prop dest' key)
             = arr (get_prop dest key)
               @ filter (\<lambda>n. name_of n \<notin> set (map name_of (arr (get_prop dest key))))
                        (arr (get_prop src key))
           \<and> (distinct (map name_of (arr (get_prop dest key)))
                \<longrightarrow> distinct (map name_of (arr (get_prop src key)))
                \<longrightarrow> distinct (map name_of (arr (get_prop dest' key))))))
   \<and> (\<forall>key \<in> set WSDL_DEF_KEYS. \<forall>raw defs raw' vis' defs'.
         parseWsdl env xml = Inr raw \<longrightarrow> get_prop raw ''definitions'' = Some defs
         \<longrightarrow> resolveWsdl fuel env xml baseDir [] = Some (Inr (raw', vis'))
         \<longrightarrow> get_prop raw' ''definitions'' = Some defs'
         \<longrightarrow> distinct (map name_of (arr (get_prop defs key)))
         \<longrightarrow> (\<forall>l \<in> set vis'. distinct (map name_of (definitions_at env key l)))
         \<longrightarrow> distinct (map name_of (arr (get_prop defs' key))))"
proof (intro conjI impI allI ballI)
  assume "\<not> is_str dest"
  then show "\<exists>dest'. mergeWsdlDefs dest src = Inr dest'"
    unfolding mergeWsdlDefs_def by (rule mergeWsdlDefs_keys_ok)
next
  fix dest' key
  assume run: "mergeWsdlDefs dest src = Inr dest'" and key: "key \<in> set WSDL_DEF_KEYS"
  have d: "distinct WSDL_DEF_KEYS" by (simp add: WSDL_DEF_KEYS_def)
  have eq: "arr (get_prop dest' key)
          = arr (get_prop dest key) @ newItems_of (arr (get_prop dest key)) (arr (get_prop src key))"
    using mergeWsdlDefs_keys_props [OF run [unfolded mergeWsdlDefs_def] d] key by blast
  show "arr (get_prop dest' key)
          = arr (get_prop dest key)
            @ filter (\<lambda>n. name_of n \<notin> set (map name_of (arr (get_prop dest key))))
                     (arr (get_prop src key))"
    using eq by (simp add: newItems_of_def)
  assume "distinct (map name_of (arr (get_prop dest key)))"
    and "distinct (map name_of (arr (get_prop src key)))"
  then show "distinct (map name_of (arr (get_prop dest' key)))"
    unfolding eq by (rule distinct_newItems)
next
  fix key raw defs raw' vis' defs'
  assume key: "key \<in> set WSDL_DEF_KEYS"
    and p: "parseWsdl env xml = Inr raw" and g: "get_prop raw ''definitions'' = Some defs"
    and run: "resolveWsdl fuel env xml baseDir [] = Some (Inr (raw', vis'))"
    and d: "get_prop raw' ''definitions'' = Some defs'"
    and n0: "distinct (map name_of (arr (get_prop defs key)))"
    and all: "\<forall>l \<in> set vis'. distinct (map name_of (definitions_at env key l))"
  show "distinct (map name_of (arr (get_prop defs' key)))"
    using names_distinct_resolution(1) [OF key] run p g d n0 all by blast
qed

theorem mergeWsdlDefs_first_seen_wins_witness:
  "\<not> is_str dest_defs
   \<and> (\<exists>dest'. mergeWsdlDefs dest_defs src_defs = Inr dest'
         \<and> arr (get_prop dest' ''message'') = [msg_A_first, msg_B])
   \<and> ''message'' \<in> set WSDL_DEF_KEYS
   \<and> arr (get_prop dest_defs ''message'') = [msg_A_first]
   \<and> arr (get_prop src_defs ''message'') = [msg_A_second, msg_B]
   \<and> name_of msg_A_first = name_of msg_A_second \<and> msg_A_first \<noteq> msg_A_second
   \<and> distinct (map name_of [msg_A_first]) \<and> distinct (map name_of [msg_A_second, msg_B])
   \<and> distinct (map name_of [msg_A_first, msg_B])
   \<and> (\<exists>raw defs raw' defs'.
         parseWsdl cyc_env ''SELF'' = Inr raw \<and> get_prop raw ''definitions'' = Some defs
         \<and> resolveWsdl 3 cyc_env ''SELF'' ''/d'' [] = Some (Inr (raw', [''/d/self.wsdl'']))
         \<and> get_prop raw' ''definitions'' = Some defs'
         \<and> arr (get_prop defs ''message'') = [JObj [(''@_name'', ''M'')] []]
         \<and> definitions_at cyc_env ''message'' ''/d/self.wsdl'' = [JObj [(''@_name'', ''M'')] []]
         \<and> distinct (map name_of (arr (get_prop defs ''message'')))
         \<and> (\<forall>l \<in> set [''/d/self.wsdl'']. distinct (map name_of (definitions_at cyc_env ''message'' l)))
         \<and> arr (get_prop defs' ''message'') = [JObj [(''@_name'', ''M'')] []]
         \<and> distinct (map name_of (arr (get_prop defs' ''message''))))"
proof -
  note spec = mergeWsdlDefs_first_seen_wins
                [where dest = dest_defs and src = src_defs and fuel = 3 and env = cyc_env
                   and xml = "''SELF''" and baseDir = "''/d''"]
  have ns: "\<not> is_str dest_defs" by (simp add: dest_defs_def)
  obtain dest' where run: "mergeWsdlDefs dest_defs src_defs = Inr dest'"
    using spec [THEN conjunct1] ns by blast
  have key: "''message'' \<in> set WSDL_DEF_KEYS" by (simp add: WSDL_DEF_KEYS_def)
  have d: "arr (get_prop dest_defs ''message'') = [msg_A_first]"
    by (simp add: dest_defs_def)
  have s: "arr (get_prop src_defs ''message'') = [msg_A_second, msg_B]"
    by (simp add: src_defs_def)
  have names: "name_of msg_A_first = Some ''A''" "name_of msg_A_second = Some ''A''"
    "name_of msg_B = Some ''B''" "msg_A_first \<noteq> msg_A_second"
    by (simp_all add: name_of_def msg_A_first_def msg_A_second_def msg_B_def)
  note k = spec [THEN conjunct2, THEN conjunct1, rule_format, OF run key]
  have r: "arr (get_prop dest' ''message'') = [msg_A_first, msg_B]"
    using k [THEN conjunct1] by (simp add: d s names)
  have dd: "distinct (map name_of (arr (get_prop dest' ''message'')))"
    by (rule k [THEN conjunct2, rule_format]) (simp_all add: d s names)
  have ex: "\<exists>dest'. mergeWsdlDefs dest_defs src_defs = Inr dest'
         \<and> arr (get_prop dest' ''message'') = [msg_A_first, msg_B]"
    using run r by blast
  have merge: "\<not> is_str dest_defs
   \<and> (\<exists>dest'. mergeWsdlDefs dest_defs src_defs = Inr dest'
         \<and> arr (get_prop dest' ''message'') = [msg_A_first, msg_B])
   \<and> ''message'' \<in> set WSDL_DEF_KEYS
   \<and> arr (get_prop dest_defs ''message'') = [msg_A_first]
   \<and> arr (get_prop src_defs ''message'') = [msg_A_second, msg_B]
   \<and> name_of msg_A_first = name_of msg_A_second \<and> msg_A_first \<noteq> msg_A_second
   \<and> distinct (map name_of [msg_A_first]) \<and> distinct (map name_of [msg_A_second, msg_B])
   \<and> distinct (map name_of [msg_A_first, msg_B])"
    using ns ex key d s names dd [unfolded r] by simp
  define defs0 where "defs0 = JObj [(''@_name'', ''Self'')]
            [(''import'', JArr [JObj [(''@_location'', ''self.wsdl'')] []] []),
             (''message'', JArr [JObj [(''@_name'', ''M'')] []] [])]"
  define defs' where "defs' = JObj [(''@_name'', ''Self'')]
            [(''import'', JArr [JObj [(''@_location'', ''self.wsdl'')] []] []),
             (''message'', JArr [JObj [(''@_name'', ''M'')] []] []),
             (''types'', JObj [] [(''schema'', JObj [] [])])]"
  have p: "parseWsdl cyc_env ''SELF'' = Inr (JObj [] [(''definitions'', defs0)])"
    by (simp add: parseWsdl_def cyc_env_def self_doc_def defs0_def)
  have g0: "get_prop (JObj [] [(''definitions'', defs0)]) ''definitions'' = Some defs0"
    by simp
  have res: "resolveWsdl 3 cyc_env ''SELF'' ''/d'' []
               = Some (Inr (JObj [] [(''definitions'', defs')], [''/d/self.wsdl'']))"
    by (simp add: loader_defs cyc_env_def self_doc_def defs'_def)
  have g: "get_prop (JObj [] [(''definitions'', defs')]) ''definitions'' = Some defs'"
    by simp
  have m0: "arr (get_prop defs0 ''message'') = [JObj [(''@_name'', ''M'')] []]"
    by (simp add: defs0_def)
  have f: "fetchSource cyc_env ''/d/self.wsdl'' = Inr ''SELF''"
    by (simp add: fetchSource_def isUrl_def cyc_env_def)
  have da: "definitions_at cyc_env ''message'' ''/d/self.wsdl'' = [JObj [(''@_name'', ''M'')] []]"
    by (simp add: definitions_at_def document_at_def f p m0)
  have n0: "distinct (map name_of (arr (get_prop defs0 ''message'')))"
    by (simp add: m0)
  have all: "\<forall>l \<in> set [''/d/self.wsdl'']. distinct (map name_of (definitions_at cyc_env ''message'' l))"
    by (simp add: da)
  have m: "arr (get_prop defs' ''message'') = [JObj [(''@_name'', ''M'')] []]"
    by (simp add: defs'_def)
  have dm: "distinct (map name_of (arr (get_prop defs' ''message'')))"
    using spec [THEN conjunct2, THEN conjunct2] key p g0 res g n0 all by blast
  have pipe: "\<exists>raw defs raw' defs'.
         parseWsdl cyc_env ''SELF'' = Inr raw \<and> get_prop raw ''definitions'' = Some defs
         \<and> resolveWsdl 3 cyc_env ''SELF'' ''/d'' [] = Some (Inr (raw', [''/d/self.wsdl'']))
         \<and> get_prop raw' ''definitions'' = Some defs'
         \<and> arr (get_prop defs ''message'') = [JObj [(''@_name'', ''M'')] []]
         \<and> definitions_at cyc_env ''message'' ''/d/self.wsdl'' = [JObj [(''@_name'', ''M'')] []]
         \<and> distinct (map name_of (arr (get_prop defs ''message'')))
         \<and> (\<forall>l \<in> set [''/d/self.wsdl'']. distinct (map name_of (definitions_at cyc_env ''message'' l)))
         \<and> arr (get_prop defs' ''message'') = [JObj [(''@_name'', ''M'')] []]
         \<and> distinct (map name_of (arr (get_prop defs' ''message'')))"
    using p g0 res g m0 da n0 all m dm by blast
  show ?thesis using merge pipe by blast
qed

section \<open>Failures\<close>

text \<open>
  No loop of the resolver catches an error, so a resolution returns a tree only when all
  went well: the targets of the root document are in the visited set, and every
  location of the visited set was fetched and parsed, its own targets being in the
  visited set too. Hence a target of the root document that cannot be fetched, and a
  location that the schema imports lead to and at which no schema is found, leave no
  tree.
\<close>

lemma resolved_within_mono:
  "resolved_within env S l \<Longrightarrow> S \<subseteq> S' \<Longrightarrow> resolved_within env S' l"
  unfolding resolved_within_def by blast

lemma xsd_loop_targets_visited:
  assumes "xsd_loop fuel env imps schema baseDir visited = Some (Inr (s', vis'))"
  shows "set (import_targets env ''@_schemaLocation'' imps baseDir) \<subseteq> set vis'"
  using xsd_loop_imports_visited [OF assms] by (auto simp: import_targets_iff)

lemma wsdl_loop_targets_visited:
  assumes "wsdl_loop fuel env imps defs baseDir visited = Some (Inr (d', vis'))"
  shows "set (import_targets env ''@_location'' imps baseDir) \<subseteq> set vis'"
  using wsdl_loop_imports_visited [OF assms] by (auto simp: import_targets_iff)

lemma resolveWsdl_targets_visited:
  assumes run: "resolveWsdl fuel env xml baseDir visited = Some (Inr (raw', vis'))"
    and p: "parseWsdl env xml = Inr raw"
  shows "set (document_targets env raw baseDir) \<subseteq> set vis'"
proof -
  from run obtain raw0 defs defs1 schema schema' vis1 defs'
    where r: "parseWsdl env xml = Inr raw0" "get_prop raw0 ''definitions'' = Some defs"
      "ensureSchema defs = Inr (defs1, schema)"
      "xsd_loop fuel env (xsd_imports schema) schema baseDir visited = Some (Inr (schema', vis1))"
      "wsdl_loop fuel env (arr (get_prop defs ''import'')) (put_schema defs1 schema') baseDir vis1
         = Some (Inr (defs', vis'))"
    by (rule resolveWsdl_result)
  have same: "raw0 = raw" using p r(1) by simp
  have sub: "set vis1 \<subseteq> set vis'"
    using wsdl_prefix(2) [THEN mp, OF r(5)] by (auto simp: prefix_def)
  have xs: "set (schema_targets env (schema_of defs) baseDir) \<subseteq> set vis'"
    using xsd_loop_targets_visited [OF r(4)] sub ensureSchema_props(6) [OF r(3)]
    by (simp add: schema_targets_def)
  have ws: "set (import_targets env ''@_location'' (arr (get_prop defs ''import'')) baseDir)
              \<subseteq> set vis'"
    by (rule wsdl_loop_targets_visited [OF r(5)])
  show ?thesis
    using xs ws r(2) by (simp add: document_targets_def same [symmetric])
qed

lemma xsd_loop_resolved:
  "xsd_loop fuel env imps schema baseDir visited = Some (Inr (s', vis')) \<Longrightarrow>
   \<forall>l \<in> set vis'. l \<in> set visited \<or> resolved_within env (set vis') l"
proof (induction rule: xsd_loop_run_induct)
  case (Nil fuel env schema baseDir visited)
  show ?case by simp
next
  case (Skip fuel env imp imps schema baseDir visited s' vis')
  then show ?case by simp
next
  case (Fetch n env imp imps schema baseDir visited s' vis' loc xsdXml importedSchema merged vis1 schema1)
  define absLoc where "absLoc = absoluteLocation env loc baseDir"
  have sub: "set vis1 \<subseteq> set vis'"
    using xsd_loop_prefix [OF Fetch.hyps(8)] by (auto simp: prefix_def)
  have sa: "schema_at env absLoc = Some importedSchema"
    using Fetch.hyps(4,5) by (simp add: schema_at_def absLoc_def)
  have "set (schema_targets env importedSchema (baseDirOf env absLoc)) \<subseteq> set vis1"
    using xsd_loop_targets_visited [OF Fetch.hyps(6)] by (simp add: schema_targets_def absLoc_def)
  then have here: "resolved_within env (set vis') absLoc"
    using sa sub unfolding resolved_within_def by blast
  show ?case
  proof
    fix l assume l: "l \<in> set vis'"
    show "l \<in> set visited \<or> resolved_within env (set vis') l"
    proof (cases "l \<in> set vis1")
      case False
      then show ?thesis using Fetch.IH(2) l by blast
    next
      case True
      then have "l \<in> set visited \<or> l = absLoc \<or> resolved_within env (set vis1) l"
        using Fetch.IH(1) by (auto simp: absLoc_def)
      then show ?thesis using here resolved_within_mono [OF _ sub] by blast
    qed
  qed
qed

lemma wsdl_resolved:
  "\<forall>raw' vis'. resolveWsdl fuel env xml baseDir visited = Some (Inr (raw', vis')) \<longrightarrow>
     (\<forall>l \<in> set vis'. l \<in> set visited \<or> resolved_within env (set vis') l)"
  "\<forall>d' vis'. wsdl_loop fuel' env' imps defs baseDir' visited' = Some (Inr (d', vis')) \<longrightarrow>
     (\<forall>l \<in> set vis'. l \<in> set visited' \<or> resolved_within env' (set vis') l)"
proof (induction rule: wsdl_run_induct_aux
         [where P = "\<lambda>fuel env xml baseDir visited raw' vis'.
                        \<forall>l \<in> set vis'. l \<in> set visited \<or> resolved_within env (set vis') l"
            and Q = "\<lambda>fuel env imps defs baseDir visited d' vis'.
                        \<forall>l \<in> set vis'. l \<in> set visited \<or> resolved_within env (set vis') l"])
  case (1 fuel env xml baseDir visited raw defs defs1 schema schema' vis1 defs' vis')
  have sub: "set vis1 \<subseteq> set vis'"
    using wsdl_prefix(2) [THEN mp, OF 1(5)] by (auto simp: prefix_def)
  note x = xsd_loop_resolved [OF 1(4)]
  show ?case
  proof
    fix l assume l: "l \<in> set vis'"
    show "l \<in> set visited \<or> resolved_within env (set vis') l"
    proof (cases "l \<in> set vis1")
      case False
      then show ?thesis using 1(6) l by blast
    next
      case True
      then have "l \<in> set visited \<or> resolved_within env (set vis1) l" using x by blast
      then show ?thesis using resolved_within_mono [OF _ sub] by blast
    qed
  qed
next
  case (2 fuel env defs baseDir visited)
  show ?case by simp
next
  case (3 fuel env imp imps defs baseDir visited d' vis')
  then show ?case by simp
next
  case (4 n env imp imps defs baseDir visited d' vis' loc importedXml importedRaw vis1 importedDefs defs1)
  define absLoc where "absLoc = absoluteLocation env loc baseDir"
  from 4(5) obtain raw0 where r0: "parseWsdl env importedXml = Inr raw0"
    by (rule resolveWsdlE)
  have sub: "set vis1 \<subseteq> set vis'"
    using wsdl_prefix(2) [THEN mp, OF 4(9)] by (auto simp: prefix_def)
  have da: "document_at env absLoc = Some raw0"
    using 4(4) r0 by (simp add: document_at_def absLoc_def)
  have "set (document_targets env raw0 (baseDirOf env absLoc)) \<subseteq> set vis1"
    using resolveWsdl_targets_visited [OF 4(5) r0] by (simp add: absLoc_def)
  then have here: "resolved_within env (set vis') absLoc"
    using da sub unfolding resolved_within_def by blast
  show ?case
  proof
    fix l assume l: "l \<in> set vis'"
    show "l \<in> set visited \<or> resolved_within env (set vis') l"
    proof (cases "l \<in> set vis1")
      case False
      then show ?thesis using 4(10) l by blast
    next
      case True
      then have "l \<in> set visited \<or> l = absLoc \<or> resolved_within env (set vis1) l"
        using 4(6) by (auto simp: absLoc_def)
      then show ?thesis using here resolved_within_mono [OF _ sub] by blast
    qed
  qed
qed

lemma resolution_all_or_nothing:
  assumes run: "resolveWsdl fuel env xml baseDir [] = Some (Inr (raw', vis'))"
  shows "\<exists>raw. parseWsdl env xml = Inr raw
           \<and> set (document_targets env raw baseDir) \<subseteq> set vis'
           \<and> (\<forall>l \<in> set vis'. resolved_within env (set vis') l)"
proof -
  from run obtain raw where p: "parseWsdl env xml = Inr raw" by (rule resolveWsdlE)
  have t: "set (document_targets env raw baseDir) \<subseteq> set vis'"
    by (rule resolveWsdl_targets_visited [OF run p])
  have "\<forall>l \<in> set vis'. l \<in> set [] \<or> resolved_within env (set vis') l"
    using wsdl_resolved(1) run by blast
  then show ?thesis using p t by simp
qed

lemma resolved_within_fetched:
  "resolved_within env S l \<Longrightarrow> \<exists>t. fetchSource env l = Inr t"
  by (auto simp: resolved_within_def schema_at_def document_at_def split: sum.splits)

lemma failed_import_aborts:
  assumes p: "parseWsdl env xml = Inr raw"
    and l: "l \<in> set (document_targets env raw baseDir)"
    and f: "fetchSource env l = Inl e"
  shows "\<forall>tree. loadWsdl fuel env xml baseDir \<noteq> Some (Inr tree)"
proof (intro allI notI)
  fix tree assume "loadWsdl fuel env xml baseDir = Some (Inr tree)"
  then obtain z where z: "resolveWsdl fuel env xml baseDir [] = Some z" "map_sum id fst z = Inr tree"
    by (auto simp: loadWsdl_def)
  then obtain vis' where run: "resolveWsdl fuel env xml baseDir [] = Some (Inr (tree, vis'))"
    by (cases z) auto
  from resolution_all_or_nothing [OF run] p
  have "set (document_targets env raw baseDir) \<subseteq> set vis'"
    and "\<forall>l \<in> set vis'. resolved_within env (set vis') l" by auto
  then have "resolved_within env (set vis') l" using l by blast
  then show False using f resolved_within_fetched by fastforce
qed

lemma xsd_loop_schema_resolved:
  "xsd_loop fuel env imps schema baseDir visited = Some (Inr (s', vis')) \<Longrightarrow>
   \<forall>l \<in> set vis'. l \<in> set visited
      \<or> (\<exists>s. schema_at env l = Some s \<and> set (schema_targets env s (baseDirOf env l)) \<subseteq> set vis')"
proof (induction rule: xsd_loop_run_induct)
  case (Nil fuel env schema baseDir visited)
  show ?case by simp
next
  case (Skip fuel env imp imps schema baseDir visited s' vis')
  then show ?case by simp
next
  case (Fetch n env imp imps schema baseDir visited s' vis' loc xsdXml importedSchema merged vis1 schema1)
  define absLoc where "absLoc = absoluteLocation env loc baseDir"
  have sub: "set vis1 \<subseteq> set vis'"
    using xsd_loop_prefix [OF Fetch.hyps(8)] by (auto simp: prefix_def)
  have sa: "schema_at env absLoc = Some importedSchema"
    using Fetch.hyps(4,5) by (simp add: schema_at_def absLoc_def)
  have "set (schema_targets env importedSchema (baseDirOf env absLoc)) \<subseteq> set vis1"
    using xsd_loop_targets_visited [OF Fetch.hyps(6)] by (simp add: schema_targets_def absLoc_def)
  then have here: "\<exists>s. schema_at env absLoc = Some s
                     \<and> set (schema_targets env s (baseDirOf env absLoc)) \<subseteq> set vis'"
    using sa sub by blast
  show ?case
  proof
    fix l assume l: "l \<in> set vis'"
    show "l \<in> set visited
      \<or> (\<exists>s. schema_at env l = Some s \<and> set (schema_targets env s (baseDirOf env l)) \<subseteq> set vis')"
    proof (cases "l \<in> set vis1")
      case False
      then show ?thesis using Fetch.IH(2) l by blast
    next
      case True
      then have "l \<in> set visited \<or> l = absLoc
          \<or> (\<exists>s. schema_at env l = Some s \<and> set (schema_targets env s (baseDirOf env l)) \<subseteq> set vis1)"
        using Fetch.IH(1) by (auto simp: absLoc_def)
      then show ?thesis using here sub by blast
    qed
  qed
qed

lemma schema_import_failure_aborts:
  assumes p: "parseWsdl env xml = Inr raw" and g: "get_prop raw ''definitions'' = Some defs"
    and reach: "schema_reached env (schema_targets env (schema_of defs) baseDir) l"
    and fail: "schema_at env l = None"
  shows "\<forall>tree. loadWsdl fuel env xml baseDir \<noteq> Some (Inr tree)"
proof (intro allI notI)
  fix tree assume "loadWsdl fuel env xml baseDir = Some (Inr tree)"
  then obtain z where z: "resolveWsdl fuel env xml baseDir [] = Some z" "map_sum id fst z = Inr tree"
    by (auto simp: loadWsdl_def)
  then obtain vis' where run: "resolveWsdl fuel env xml baseDir [] = Some (Inr (tree, vis'))"
    by (cases z) auto
  from run obtain raw0 defs0 defs1 schema schema' vis1
    where r: "parseWsdl env xml = Inr raw0" "get_prop raw0 ''definitions'' = Some defs0"
      "ensureSchema defs0 = Inr (defs1, schema)"
      "xsd_loop fuel env (xsd_imports schema) schema baseDir [] = Some (Inr (schema', vis1))"
    by (rule resolveWsdl_result)
  have same: "defs0 = defs" using p g r(1,2) by simp
  have roots: "set (schema_targets env (schema_of defs) baseDir) \<subseteq> set vis1"
    using xsd_loop_targets_visited [OF r(4)] ensureSchema_props(6) [OF r(3)]
    by (simp add: schema_targets_def same)
  have closed: "\<forall>l \<in> set vis1. \<exists>s. schema_at env l = Some s
                   \<and> set (schema_targets env s (baseDirOf env l)) \<subseteq> set vis1"
    using xsd_loop_schema_resolved [OF r(4)] by simp
  have "l \<in> set vis1"
    using reach
  proof (induction rule: schema_reached.induct)
    case (root l)
    then show ?case using roots by blast
  next
    case (step l schema l')
    then show ?case using closed by fastforce
  qed
  then show False using closed fail by fastforce
qed

text \<open>
  The error for a response with a failure status is made by \<open>fetchSource\<close> and names
  the location. It reaches the caller from two imports deep, as does the error of
  \<open>parseWsdl\<close> for an imported document without a definitions root.
\<close>

lemma http_failure_names_location:
  assumes "isUrl l" "http_fetch env l = Some res" "\<not> ok res"
  shows "\<exists>e. fetchSource env l = Inl e \<and> mentions e l"
proof -
  have "sublist l (''Failed to fetch '' @ l @ '': HTTP '' @ show_nat (status res))"
    by (rule sublist_appendI)
  then show ?thesis using assms by (simp add: fetchSource_def mentions_def)
qed

lemma nested_failures_surface:
  "loadWsdl 3 web_env ''ROOTWEB'' ''/d''
     = Some (Inl (Error ''Failed to fetch http://h/s/gone.xsd: HTTP 404''))"
  "loadWsdl 3 web_env ''ROOTBAD'' ''/d''
     = Some (Inl (Error ''Not a valid WSDL document: missing <definitions> root element.''))"
  by (simp_all add: loader_defs web_env_def root_web_doc_def a_doc_def root_bad_doc_def bad_doc_def)

text \<open>
  Claim C6 at a document whose schema imports a URL while the network is down, and at a
  document whose schema imports a path that is a directory. \<open>loadWsdl\<close> rejects and
  returns no tree, as the claim says, but the error is the one that \<open>fetch\<close> and
  \<open>readFile\<close> reject with: \<open>fetchSource\<close> passes it on as it is, and its message
  names no location. \<open>fetchSource\<close> is documented to throw an error with the location
  in the message on failure; it makes such an error only for a response with a failure
  status.
\<close>

theorem fetch_failure_without_location:
  "document_targets down_env root_web_doc ''/d'' = [''http://h/s/a.xsd'']
   \<and> fetchSource down_env ''http://h/s/a.xsd'' = Inl (FetchRejected ''fetch failed'')
   \<and> (\<forall>fuel. loadWsdl fuel down_env ''ROOTWEB'' ''/d'' = Some (Inl (FetchRejected ''fetch failed'')))
   \<and> \<not> mentions (FetchRejected ''fetch failed'') ''http://h/s/a.xsd''
   \<and> document_targets down_env root_dir_doc ''/d'' = [''/d/schemas'']
   \<and> fetchSource down_env ''/d/schemas''
        = Inl (ReadFileError ''EISDIR: illegal operation on a directory, read'')
   \<and> (\<forall>fuel. loadWsdl fuel down_env ''ROOTDIR'' ''/d''
         = Some (Inl (ReadFileError ''EISDIR: illegal operation on a directory, read'')))
   \<and> \<not> mentions (ReadFileError ''EISDIR: illegal operation on a directory, read'') ''/d/schemas''
   \<and> \<not> mentions (ReadFileError ''EISDIR: illegal operation on a directory, read'') ''schemas''"
proof -
  have t1: "document_targets down_env root_web_doc ''/d'' = [''http://h/s/a.xsd'']"
    by (simp add: document_targets_def schema_targets_def import_targets_def xsd_imports_def
          schema_of_def root_web_doc_def absoluteLocation_def isUrl_def)
  have f1: "fetchSource down_env ''http://h/s/a.xsd'' = Inl (FetchRejected ''fetch failed'')"
    by (simp add: fetchSource_def isUrl_def down_env_def)
  have l1: "loadWsdl fuel down_env ''ROOTWEB'' ''/d'' = Some (Inl (FetchRejected ''fetch failed''))"
    for fuel
    by (simp add: loader_defs down_env_def root_web_doc_def)
  have m1: "\<not> mentions (FetchRejected ''fetch failed'') ''http://h/s/a.xsd''"
    unfolding mentions_def by code_simp
  have t2: "document_targets down_env root_dir_doc ''/d'' = [''/d/schemas'']"
    by (simp add: document_targets_def schema_targets_def import_targets_def xsd_imports_def
          schema_of_def root_dir_doc_def absoluteLocation_def isUrl_def down_env_def)
  have f2: "fetchSource down_env ''/d/schemas''
        = Inl (ReadFileError ''EISDIR: illegal operation on a directory, read'')"
    by (simp add: fetchSource_def isUrl_def down_env_def)
  have l2: "loadWsdl fuel down_env ''ROOTDIR'' ''/d''
         = Some (Inl (ReadFileError ''EISDIR: illegal operation on a directory, read''))"
    for fuel
    by (simp add: loader_defs down_env_def root_dir_doc_def)
  have m2: "\<not> mentions (ReadFileError ''EISDIR: illegal operation on a directory, read'') ''/d/schemas''"
    unfolding mentions_def by code_simp
  have m3: "\<not> mentions (ReadFileError ''EISDIR: illegal operation on a directory, read'') ''schemas''"
    unfolding mentions_def by code_simp
  show ?thesis using t1 f1 l1 m1 t2 f2 l2 m2 m3 by blast
qed

end
